theory Spec2Isabelle
  imports Complex_Main "HOL-Library.AList" "HOL-Library.Sublist" "HOL-Library.List_Lexorder"
begin

section \<open>Strings\<close>

text \<open>
  A JavaScript string is a sequence of UTF-16 code units. A code unit is modelled as a
  natural number (at most 65535 in every string written out below), so that the Chinese
  labels and keywords of the source are lists of numbers: the greeting of the first
  intent pattern, U+4F60 U+597D, is \<open>[20320, 22909]\<close>. Every table below lists the strings
  of the source in the order of the source. \<open>ascii\<close> turns a Basic Latin literal into its
  code units. Strings are compared as \<open>Array.prototype.sort\<close> compares them by default:
  code unit by code unit, a proper prefix first, which is the order of lists of numbers
  used here.
\<close>

type_synonym jstring = "nat list"

definition ascii :: "string \<Rightarrow> jstring" where
  "ascii s = map of_char s"

text \<open>
  \<open>WhiteSpace\<close> and \<open>LineTerminator\<close> of ECMAScript: what \<open>String.prototype.trim\<close>
  removes at both ends and what \<open>parseInt\<close> skips in front.
\<close>

definition is_ws :: "nat \<Rightarrow> bool" where
  "is_ws c \<longleftrightarrow> c \<in> set [9, 10, 11, 12, 13, 32, 160, 5760, 8192, 8193, 8194, 8195, 8196, 8197,
     8198, 8199, 8200, 8201, 8202, 8232, 8233, 8239, 8287, 12288, 65279]"

definition trim :: "jstring \<Rightarrow> jstring" where
  "trim s = rev (dropWhile is_ws (rev (dropWhile is_ws s)))"

text \<open>\<open>s.split(sep)\<close> for a separator of one code unit: always at least one piece.\<close>

fun split :: "nat \<Rightarrow> jstring \<Rightarrow> jstring list" where
  "split sep [] = [[]]"
| "split sep (c # cs) =
     (if c = sep then [] # split sep cs
      else (c # hd (split sep cs)) # tl (split sep cs))"

declare split.simps [simp del]

text \<open>\<open>xs[i]\<close> on an array: \<open>undefined\<close> (here \<open>None\<close>) beyond the end.\<close>

fun at_index :: "'a list \<Rightarrow> nat \<Rightarrow> 'a option" where
  "at_index [] i = None"
| "at_index (x # xs) 0 = Some x"
| "at_index (x # xs) (Suc i) = at_index xs i"

text \<open>\<open>s.includes(m)\<close>: \<open>m\<close> occurs in \<open>s\<close> as a contiguous run, code unit for code unit.\<close>

fun includes_str :: "jstring \<Rightarrow> jstring \<Rightarrow> bool" where
  "includes_str [] m \<longleftrightarrow> m = []"
| "includes_str (c # cs) m \<longleftrightarrow> prefix m (c # cs) \<or> includes_str cs m"

text \<open>\<open>parts.join(' ')\<close>.\<close>

fun join :: "jstring list \<Rightarrow> jstring" where
  "join [] = []"
| "join [p] = p"
| "join (p # q # ps) = p @ 32 # join (q # ps)"

text \<open>
  \<open>toLowerCase\<close> on the Basic Latin letters. The other case mappings of Unicode neither
  produce nor remove a code unit of the keywords searched for in the lowered text
  (\<open>s\<close>, \<open>m\<close> and five ideographs), so they are left out: containment of those keywords is
  the same.
\<close>

definition toLowerCase :: "jstring \<Rightarrow> jstring" where
  "toLowerCase s = map (\<lambda>c. if 65 \<le> c \<and> c \<le> 90 then c + 32 else c) s"

text \<open>
  The canonical form under which a regular expression with flag \<open>i\<close> (and without flag
  \<open>u\<close>) compares code units: the upper-case mapping, never from outside Basic Latin into
  it. For the code units of the patterns below (Basic Latin letters and ideographs) only
  the Basic Latin letters are affected.
\<close>

definition canonicalize :: "nat \<Rightarrow> nat" where
  "canonicalize c = (if 97 \<le> c \<and> c \<le> 122 then c - 32 else c)"

definition is_digit :: "nat \<Rightarrow> bool" where
  "is_digit c \<longleftrightarrow> 48 \<le> c \<and> c \<le> 57"

text \<open>The value of a run of decimal digits, and the decimal numeral of a number.\<close>

definition digits_value :: "jstring \<Rightarrow> nat" where
  "digits_value ds = foldl (\<lambda>n c. 10 * n + (c - 48)) 0 ds"

fun numeral_string :: "nat \<Rightarrow> jstring" where
  "numeral_string n =
     (if n < 10 then [48 + n] else numeral_string (n div 10) @ [48 + n mod 10])"

declare numeral_string.simps [simp del]

text \<open>
  \<open>parseInt(s, 10)\<close>: skip leading white space, read an optional sign, then the longest
  run of decimal digits; \<open>NaN\<close> (here \<open>None\<close>) when that run is empty. The value is the
  mathematical integer; the source only compares it with 0 and 24, where the rounding of
  a very long numeral to a double makes no difference, and \<open>-0\<close> is 0.
\<close>

definition parseInt :: "jstring \<Rightarrow> int option" where
  "parseInt s =
     (let t = dropWhile is_ws s;
          neg = (case t of [] \<Rightarrow> False | c # _ \<Rightarrow> c = 45);
          u = (case t of [] \<Rightarrow> [] | c # cs \<Rightarrow> if c = 45 \<or> c = 43 then cs else t);
          ds = takeWhile is_digit u
      in if ds = [] then None
         else Some (if neg then - int (digits_value ds) else int (digits_value ds)))"

section \<open>Records of the log\<close>

record SmmLogEntry =
  questionId :: jstring
  content :: jstring
  time :: jstring
  source :: jstring
  userId :: jstring
  company :: jstring
  userName :: jstring
  nickname :: jstring
  email :: jstring
  feedbackStatus :: jstring
  feedbackContent :: jstring

section \<open>Ingestion\<close>

text \<open>
  The localized column headers, in the order of the table, with the field each one fills
  (the first and the fifth header end in the Basic Latin letters \<open>ID\<close>).
\<close>

definition HEADER_MAPPING :: "(jstring \<times> string) list" where
  "HEADER_MAPPING =
    [([38382, 39064, 73, 68], ''questionId''),
     ([38382, 39064, 20869, 23481], ''content''),
     ([25552, 38382, 26102, 38388], ''time''),
     ([26469, 28304], ''source''),
     ([29992, 25143, 73, 68], ''userId''),
     ([20844, 21496, 21517], ''company''),
     ([29992, 25143, 22995, 21517], ''userName''),
     ([29992, 25143, 26165, 31216], ''nickname''),
     ([37038, 31665], ''email''),
     ([21453, 39304, 29366, 24577], ''feedbackStatus''),
     ([21453, 39304, 20869, 23481], ''feedbackContent'')]"

text \<open>
  A row as the CSV parser hands it over: the cells under their headers; a header the
  file lacks has no cell. \<open>cell\<close> is \<open>val ? val.trim() : ''\<close>.
\<close>

type_synonym raw_row = "jstring \<rightharpoonup> jstring"

definition cell :: "raw_row \<Rightarrow> jstring \<Rightarrow> jstring" where
  "cell row zhKey = (case row zhKey of None \<Rightarrow> [] | Some val \<Rightarrow> if val = [] then [] else trim val)"

definition set_field :: "string \<Rightarrow> jstring \<Rightarrow> SmmLogEntry \<Rightarrow> SmmLogEntry" where
  "set_field name v e =
     (if name = ''questionId'' then e\<lparr>questionId := v\<rparr>
      else if name = ''content'' then e\<lparr>content := v\<rparr>
      else if name = ''time'' then e\<lparr>time := v\<rparr>
      else if name = ''source'' then e\<lparr>source := v\<rparr>
      else if name = ''userId'' then e\<lparr>userId := v\<rparr>
      else if name = ''company'' then e\<lparr>company := v\<rparr>
      else if name = ''userName'' then e\<lparr>userName := v\<rparr>
      else if name = ''nickname'' then e\<lparr>nickname := v\<rparr>
      else if name = ''email'' then e\<lparr>email := v\<rparr>
      else if name = ''feedbackStatus'' then e\<lparr>feedbackStatus := v\<rparr>
      else if name = ''feedbackContent'' then e\<lparr>feedbackContent := v\<rparr>
      else e)"

definition blank_entry :: SmmLogEntry where
  "blank_entry = \<lparr>questionId = [], content = [], time = [], source = [], userId = [],
     company = [], userName = [], nickname = [], email = [], feedbackStatus = [],
     feedbackContent = []\<rparr>"

text \<open>The body of \<open>results.data.map\<close>: every header of the table sets its field.\<close>

definition newRow :: "raw_row \<Rightarrow> SmmLogEntry" where
  "newRow row = fold (\<lambda>(zhKey, name). set_field name (cell row zhKey)) HEADER_MAPPING blank_entry"

definition parseCSV :: "raw_row list \<Rightarrow> SmmLogEntry list" where
  "parseCSV rows = filter (\<lambda>item. content item \<noteq> [] \<and> time item \<noteq> []) (map newRow rows)"

section \<open>Objects used as dictionaries, sets, sorting\<close>

text \<open>
  The aggregations keep their counters in plain objects (\<open>{}\<close>) indexed by strings taken
  from the data. The own properties of such an object are an association list in the
  order of their creation. Reading \<open>obj[k]\<close> falls back on \<open>Object.prototype\<close> when \<open>k\<close>
  is not an own property: for the twelve names below the result is a function (for
  \<open>__proto__\<close>, the prototype object itself), which is truthy; for every other name it
  is \<open>undefined\<close>.
\<close>

definition Object_prototype :: "jstring list" where
  "Object_prototype = map ascii
     [''constructor'', ''__defineGetter__'', ''__defineSetter__'', ''hasOwnProperty'',
      ''__lookupGetter__'', ''__lookupSetter__'', ''isPrototypeOf'', ''propertyIsEnumerable'',
      ''toString'', ''valueOf'', ''__proto__'', ''toLocaleString'']"

definition inherited :: "jstring \<Rightarrow> bool" where
  "inherited k \<longleftrightarrow> k \<in> set Object_prototype"

datatype 'v property = Own 'v | Inherited | Undefined

definition get :: "(jstring \<times> 'v) list \<Rightarrow> jstring \<Rightarrow> 'v property" where
  "get obj k =
     (case map_of obj k of Some v \<Rightarrow> Own v
      | None \<Rightarrow> if inherited k then Inherited else Undefined)"

text \<open>
  \<open>Object.keys\<close> and \<open>Object.entries\<close> list the own properties: first the array indices
  (canonical decimal numerals below \<open>2^32 - 1\<close>) in ascending numeric order, then the
  other names in the order of their creation.
\<close>

definition is_array_index :: "jstring \<Rightarrow> bool" where
  "is_array_index k \<longleftrightarrow>
     k \<noteq> [] \<and> list_all is_digit k \<and> (k = [48] \<or> hd k \<noteq> 48) \<and> digits_value k < 4294967295"

definition Object_entries :: "(jstring \<times> 'v) list \<Rightarrow> (jstring \<times> 'v) list" where
  "Object_entries obj =
     sort_key (\<lambda>(k, v). digits_value k) (filter (\<lambda>(k, v). is_array_index k) obj)
     @ filter (\<lambda>(k, v). \<not> is_array_index k) obj"

definition Object_keys :: "(jstring \<times> 'v) list \<Rightarrow> jstring list" where
  "Object_keys obj = map fst (Object_entries obj)"

text \<open>
  The value of a counter. \<open>(counts[k] || 0) + 1\<close> is a number as long as \<open>counts[k]\<close> is
  \<open>undefined\<close> or a number. When \<open>k\<close> is an inherited name, \<open>counts[k]\<close> is a function or
  an object, \<open>+ 1\<close> appends \<open>"1"\<close> to its text, and the counter becomes a non-empty string
  (\<open>Str\<close>; its text depends on the engine), which further increments only lengthen. The
  assignment creates an own property, except for \<open>__proto__\<close>, whose setter ignores a
  value that is not an object.
\<close>

datatype jsval = Num nat | Str

definition increment :: "jstring \<Rightarrow> (jstring \<times> jsval) list \<Rightarrow> (jstring \<times> jsval) list" where
  "increment k counts =
     (case get counts k of
        Own (Num n) \<Rightarrow> AList.update k (Num (n + 1)) counts
      | Own Str \<Rightarrow> AList.update k Str counts
      | Inherited \<Rightarrow> if k = ascii ''__proto__'' then counts else counts @ [(k, Str)]
      | Undefined \<Rightarrow> counts @ [(k, Num 1)])"

text \<open>A \<open>Set\<close> of strings: its elements in the order of insertion, each once.\<close>

definition Set_add :: "jstring \<Rightarrow> jstring list \<Rightarrow> jstring list" where
  "Set_add x s = (if x \<in> set s then s else s @ [x])"

definition new_Set :: "jstring list \<Rightarrow> jstring list" where
  "new_Set xs = fold Set_add xs []"

text \<open>
  What a call can end in besides a value: a \<open>TypeError\<close> thrown, or an array order that
  the language leaves to the engine.
\<close>

datatype error = TypeError | UnspecifiedOrder

text \<open>
  \<open>xs.sort((a, b) => b.value - a.value)\<close>: stable, descending. A difference with a
  string operand is \<open>NaN\<close>, which \<open>sort\<close> takes for 0; with such a value among numbers that
  differ the comparison is not consistent and the order is left to the engine.
\<close>

definition is_num :: "jsval \<Rightarrow> bool" where
  "is_num v = (case v of Num n \<Rightarrow> True | Str \<Rightarrow> False)"

definition num_of :: "jsval \<Rightarrow> nat" where
  "num_of v = (case v of Num n \<Rightarrow> n | Str \<Rightarrow> 0)"

definition sort_desc :: "('a \<Rightarrow> nat) \<Rightarrow> 'a list \<Rightarrow> 'a list" where
  "sort_desc f xs = sort_key (\<lambda>x. - int (f x)) xs"

definition sort_desc_val :: "(jstring \<times> jsval) list \<Rightarrow> error + (jstring \<times> jsval) list" where
  "sort_desc_val xs =
     (if list_all (\<lambda>(k, v). is_num v) xs then Inr (sort_desc (\<lambda>(k, v). num_of v) xs)
      else if length (remdups (map snd (filter (\<lambda>(k, v). is_num v) xs))) \<le> 1 then Inr xs
      else Inl UnspecifiedOrder)"

text \<open>\<open>data.forEach\<close> with a body that may throw.\<close>

fun forEach :: "('a \<Rightarrow> 's \<Rightarrow> error + 's) \<Rightarrow> 'a list \<Rightarrow> 's \<Rightarrow> error + 's" where
  "forEach body [] s = Inr s"
| "forEach body (x # xs) s =
     (case body x s of Inl e \<Rightarrow> Inl e | Inr s' \<Rightarrow> forEach body xs s')"

section \<open>The internal-user rule\<close>

definition isInternalUser :: "SmmLogEntry \<Rightarrow> bool" where
  "isInternalUser entry =
     (let keywords = [ascii ''smm'', [19978, 28023, 26377, 33394, 32593]];
          textToCheck = toLowerCase (join [company entry, userName entry, nickname entry, email entry])
      in list_ex (\<lambda>k. includes_str textToCheck k) keywords)"

section \<open>Time analysis\<close>

record DailyTrend =
  date :: jstring
  queries :: nat
  dau :: nat

text \<open>
  \<open>stats[datePart]\<close> holds \<open>(queries, users)\<close>. For an inherited name the test
  \<open>!stats[datePart]\<close> is false, so no own property is created; \<open>queries += 1\<close> then
  writes \<open>NaN\<close> on the inherited function or prototype object, where no later read of
  this program sees it as truthy, and \<open>.users\<close> is \<open>undefined\<close>, so \<open>.users.add\<close>
  throws. In the final \<open>map\<close> every date comes from \<open>Object.keys(stats)\<close>, so
  \<open>stats[date]\<close> is an own property and the case \<open>None\<close> is never taken.
\<close>

type_synonym day_stats = "(jstring \<times> nat \<times> jstring list) list"

definition count_entry :: "jstring \<Rightarrow> SmmLogEntry \<Rightarrow> day_stats \<Rightarrow> day_stats" where
  "count_entry datePart entry stats =
     AList.map_entry datePart
       (\<lambda>(q, users). (q + 1, if userId entry \<noteq> [] then Set_add (userId entry) users else users))
       stats"

definition daily_step :: "SmmLogEntry \<Rightarrow> day_stats \<Rightarrow> error + day_stats" where
  "daily_step entry stats =
     (let datePart = hd (split 32 (time entry)) in
      if datePart = [] then Inr stats
      else (case get stats datePart of
              Own s \<Rightarrow> Inr (count_entry datePart entry stats)
            | Undefined \<Rightarrow> Inr (count_entry datePart entry (stats @ [(datePart, (0, []))]))
            | Inherited \<Rightarrow> if userId entry \<noteq> [] then Inl TypeError else Inr stats))"

definition getDailyTrend :: "SmmLogEntry list \<Rightarrow> error + DailyTrend list" where
  "getDailyTrend data =
     (case forEach daily_step data [] of
        Inl e \<Rightarrow> Inl e
      | Inr stats \<Rightarrow>
          Inr (map (\<lambda>d. case map_of stats d of
                          Some (q, users) \<Rightarrow> \<lparr>date = d, queries = q, dau = length users\<rparr>
                        | None \<Rightarrow> \<lparr>date = d, queries = 0, dau = 0\<rparr>)
                 (sort (Object_keys stats))))"

text \<open>An entry of the hourly histogram: the label \<open>"H:00"\<close> and the count.\<close>

type_synonym HourlyStats = "jstring \<times> nat"

definition hourly_step :: "SmmLogEntry \<Rightarrow> nat list \<Rightarrow> nat list" where
  "hourly_step entry counts =
     (case at_index (split 32 (time entry)) 1 of
        None \<Rightarrow> counts
      | Some timePart \<Rightarrow>
          if timePart = [] then counts
          else (case parseInt (hd (split 58 timePart)) of
                  None \<Rightarrow> counts
                | Some hour \<Rightarrow>
                    if 0 \<le> hour \<and> hour < 24
                    then counts[nat hour := counts ! nat hour + 1] else counts))"

definition getHourlyStats :: "SmmLogEntry list \<Rightarrow> HourlyStats list" where
  "getHourlyStats data =
     map (\<lambda>(hour, count). (numeral_string hour @ ascii '':00'', count))
       (enumerate 0 (fold hourly_step data (replicate 24 0)))"

section \<open>Content analysis\<close>

text \<open>
  The two shapes of regular expression in the intent table: alternatives of literal
  strings under flag \<open>i\<close>, and \<open>.*\<close>, which every string matches. The labels of the
  table are, in this order: chat and greeting, market and price, trend and forecast, data
  and inventory, knowledge and encyclopedia, and other; each of the first five has
  U+002F between its two words. The only alternatives with Basic Latin letters are
  \<open>hello\<close> and \<open>hi\<close> in the first pattern.
\<close>

datatype regex = Alternatives "jstring list" | AnyString

fun test :: "regex \<Rightarrow> jstring \<Rightarrow> bool" where
  "test (Alternatives alts) s \<longleftrightarrow>
     list_ex (\<lambda>a. includes_str (map canonicalize s) (map canonicalize a)) alts"
| "test AnyString s \<longleftrightarrow> True"

definition other :: jstring where
  "other = [20854, 20182]"

definition intents :: "(jstring \<times> regex) list" where
  "intents =
    [([38386, 32842, 47, 38382, 20505], Alternatives
       [[20320, 22909], [26089, 19978, 22909], [26202, 19978, 22909], [35874, 35874],
        [24863, 35874], [20877, 35265], [104, 101, 108, 108, 111], [104, 105],
        [21704, 21704], [29275], [21385, 23475], [26234, 38556], [31528, 34507],
        [27979, 35797], [35841], [24110, 21161]]),
     ([34892, 24773, 47, 20215, 26684], Alternatives
       [[20215, 26684], [22810, 23569, 38065], [25253, 20215], [21319, 36148, 27700],
        [20215], [32467, 31639], [22810, 23569], [38065], [33457, 36153], [34892, 24773]]),
     ([36235, 21183, 47, 39044, 27979], Alternatives
       [[36208, 21183], [28072], [36300], [39044, 27979], [21518, 24066], [30475, 27861],
        [20998, 26512], [23637, 26395], [36235, 21183], [21160, 21521]]),
     ([25968, 25454, 47, 24211, 23384], Alternatives
       [[24211, 23384], [20179, 21333], [20135, 37327], [20135, 33021],
        [36827, 20986, 21475], [34920], [25968, 25454], [22270], [25490, 20135],
        [24320, 24037, 29575], [38144, 37327], [24179, 34913, 34920]]),
     ([30693, 35782, 47, 30334, 31185], Alternatives
       [[26159, 20160, 20040], [23450, 20041], [26631, 20934], [24037, 33402],
        [20171, 32461], [29260, 21495], [21306, 21035], [21547, 20041], [31185, 26222]]),
     ([20854, 20182], AnyString)]"

text \<open>The \<open>for ... of\<close> loop with its \<open>break\<close>: the key of the first entry that matches.\<close>

fun first_match :: "(jstring \<times> regex) list \<Rightarrow> jstring \<Rightarrow> jstring option" where
  "first_match [] s = None"
| "first_match ((key, regex) # rest) s =
     (if key \<noteq> other \<and> test regex s then Some key else first_match rest s)"

definition intent_step :: "SmmLogEntry \<Rightarrow> (jstring \<times> nat) list \<Rightarrow> (jstring \<times> nat) list" where
  "intent_step entry counts =
     (case first_match (Object_entries intents) (content entry) of
        Some key \<Rightarrow> AList.map_entry key Suc counts
      | None \<Rightarrow> AList.map_entry other Suc counts)"

definition classifyIntents :: "SmmLogEntry list \<Rightarrow> (jstring \<times> nat) list" where
  "classifyIntents data =
     Object_entries (fold intent_step data
       [([38386, 32842, 47, 38382, 20505], 0), ([34892, 24773, 47, 20215, 26684], 0),
        ([36235, 21183, 47, 39044, 27979], 0), ([25968, 25454, 47, 24211, 23384], 0),
        ([30693, 35782, 47, 30334, 31185], 0), ([20854, 20182], 0)])"

definition metals :: "jstring list" where
  "metals =
    [[38108], [38109], [38156], [38085], [38221], [38177], [38146], [38068],
     [19981, 38152, 38050], [37329], [38134], [31232, 22303], [38056], [38076], [30789],
     [38209], [38192], [38043], [38124], [38111], [38227], [38167], [38140], [38034],
     [38150], [38122], [38077], [38092], [38082], [38063], [38097], [38129], [38028],
     [38151], [30899, 37240, 38146], [27682, 27687, 21270, 38146],
     [30967, 37240, 38081, 38146], [20845, 27679, 30967, 37240, 38146],
     [30005, 35299, 28082], [19977, 20803], [20809, 20239], [22810, 26230, 30789],
     [30789, 29255], [30005, 27744], [32452, 20214], [69, 86, 65], [80, 79, 69],
     [24223, 38050], [24223, 38108], [24223, 38109], [30707, 27833, 28966], [38451, 26497],
     [40657, 31881], [30899, 37240, 37231], [27687, 21270, 38109]]"

definition topKeywords :: "jstring list" where
  "topKeywords =
    [[20215, 26684], [24211, 23384], [36208, 21183], [28072], [36300], [39044, 27979],
     [32467, 31639], [21152, 24037, 36153], [21319, 36148, 27700], [29616, 36135],
     [26399, 36135], [20135, 37327], [28040, 36153], [24223], [20877, 29983],
     [26376, 24230], [24180, 24230], [25104, 26412], [21033, 28070], [20379, 38656],
     [20135, 33021], [24320, 24037, 29575], [25253, 20215], [22343, 20215], [25351, 25968],
     [36827, 21475], [20986, 21475], [25919, 31574], [23439, 35266], [32654, 32852, 20648],
     [38477, 24687], [27719, 29575], [34892, 24773], [20998, 26512], [25968, 25454],
     [25253, 34920], [26085, 25253], [21608, 25253], [22810, 23569, 38065], [76, 77, 69],
     [83, 72, 70, 69], [38271, 27743], [83, 77, 77], [25490, 20135], [38144, 37327]]"

text \<open>
  \<open>terms.forEach(m => counts[m] = 0)\<close>, and the inner loop
  \<open>terms.forEach(m => { if (entry.content.includes(m)) counts[m]++ })\<close>, which both
  distributions share.
\<close>

definition zero_counts :: "jstring list \<Rightarrow> (jstring \<times> nat) list" where
  "zero_counts terms = fold (\<lambda>m counts. AList.update m 0 counts) terms []"

definition count_terms :: "jstring list \<Rightarrow> SmmLogEntry \<Rightarrow> (jstring \<times> nat) list \<Rightarrow> (jstring \<times> nat) list" where
  "count_terms terms entry counts =
     fold (\<lambda>m c. if includes_str (content entry) m then AList.map_entry m Suc c else c) terms counts"

definition getMetalDistribution :: "SmmLogEntry list \<Rightarrow> (jstring \<times> nat) list" where
  "getMetalDistribution data =
     (let counts = fold (count_terms metals) data (zero_counts metals)
      in sort_desc snd (filter (\<lambda>(name, val). val > 0) (Object_entries counts)))"

definition getTopKeywords :: "SmmLogEntry list \<Rightarrow> (jstring \<times> nat) list" where
  "getTopKeywords data =
     (let counts = fold (count_terms topKeywords) data (zero_counts topKeywords)
      in filter (\<lambda>(keyword, count). count > 0)
           (sort_desc snd
              (map (\<lambda>keyword. (keyword, case map_of counts keyword of Some c \<Rightarrow> c | None \<Rightarrow> 0))
                 (Object_keys counts))))"

section \<open>User analysis\<close>

text \<open>
  The aggregate label of the internal records: five ideographs (the name of the
  organization, also the second keyword of the internal-user rule), a space and
  \<open>(SMM)\<close>. The three labels of the user types are internal staff, external customer
  and unknown.
\<close>

definition INTERNAL_LABEL :: jstring where
  "INTERNAL_LABEL = [19978, 28023, 26377, 33394, 32593, 32, 40, 83, 77, 77, 41]"

definition company_step :: "SmmLogEntry \<Rightarrow> (jstring \<times> jsval) list \<Rightarrow> (jstring \<times> jsval) list" where
  "company_step entry counts =
     (if isInternalUser entry then increment INTERNAL_LABEL counts
      else (let trimmed = (if company entry \<noteq> [] then trim (company entry) else [])
            in if trimmed \<noteq> [] then increment trimmed counts else counts))"

definition getTopCompanies :: "SmmLogEntry list \<Rightarrow> error + (jstring \<times> jsval) list" where
  "getTopCompanies data =
     (case sort_desc_val (Object_entries (fold company_step data [])) of
        Inl e \<Rightarrow> Inl e
      | Inr ranked \<Rightarrow> Inr (take 10 ranked))"

definition user_type_step :: "SmmLogEntry \<Rightarrow> nat \<times> nat \<times> nat \<Rightarrow> nat \<times> nat \<times> nat" where
  "user_type_step entry = (\<lambda>(internal, external, unknown).
     if isInternalUser entry then (internal + 1, external, unknown)
     else if company entry \<noteq> [] \<and> trim (company entry) \<noteq> [] then (internal, external + 1, unknown)
     else (internal, external, unknown + 1))"

definition getUserTypeDistribution :: "SmmLogEntry list \<Rightarrow> (jstring \<times> nat) list" where
  "getUserTypeDistribution data =
     (case fold user_type_step data (0, 0, 0) of
        (internal, external, unknown) \<Rightarrow>
          filter (\<lambda>(name, v). v > 0)
            [([20869, 37096, 21592, 24037], internal),
             ([22806, 37096, 23458, 25143], external),
             ([26410, 30693], unknown)])"

text \<open>
  In \<open>getSourceDistribution\<close> every name comes from \<open>Object.keys(counts)\<close>, so
  \<open>counts[name]\<close> is an own property and the second case below is never taken.
\<close>

definition getSourceDistribution :: "SmmLogEntry list \<Rightarrow> (jstring \<times> jsval) list" where
  "getSourceDistribution data =
     (let counts = fold (\<lambda>entry. increment (if source entry \<noteq> [] then source entry else ascii ''Unknown''))
                     data []
      in map (\<lambda>name. (name, case map_of counts name of Some v \<Rightarrow> v | None \<Rightarrow> Num 0))
           (Object_keys counts))"

section \<open>Summary\<close>

text \<open>
  \<open>userDays[date]\<close> holds the set of the user ids of a date. For an inherited name the
  test \<open>!userDays[date]\<close> is false and \<open>userDays[date].add\<close> is not a function: the
  call throws. JavaScript numbers are doubles; the quotients and the mean are modelled by
  the real numbers they round.
\<close>

definition retention_step ::
  "SmmLogEntry \<Rightarrow> (jstring \<times> jstring list) list \<Rightarrow> error + (jstring \<times> jstring list) list" where
  "retention_step e userDays =
     (let day = hd (split 32 (time e)) in
      case get userDays day of
        Own s \<Rightarrow> Inr (AList.map_entry day (Set_add (userId e)) userDays)
      | Undefined \<Rightarrow> Inr (AList.map_entry day (Set_add (userId e)) (userDays @ [(day, [])]))
      | Inherited \<Rightarrow> Inl TypeError)"

definition users_of :: "(jstring \<times> jstring list) list \<Rightarrow> jstring \<Rightarrow> jstring list" where
  "users_of userDays d = (case map_of userDays d of Some s \<Rightarrow> s | None \<Rightarrow> [])"

fun retention_loop ::
  "jstring list \<Rightarrow> (jstring \<times> jstring list) list \<Rightarrow> real \<times> nat \<Rightarrow> real \<times> nat" where
  "retention_loop (d # d' # ds) userDays (retentionSum, comparisons) =
     (let today = users_of userDays d;
          tomorrow = users_of userDays d';
          retained = length (filter (\<lambda>uid. uid \<in> set tomorrow) today)
      in retention_loop (d' # ds) userDays
           (if length today > 0
            then (retentionSum + real retained / real (length today), comparisons + 1)
            else (retentionSum, comparisons)))"
| "retention_loop ds userDays acc = acc"

definition calculateRetention :: "SmmLogEntry list \<Rightarrow> error + real" where
  "calculateRetention data =
     (case forEach retention_step data [] of
        Inl e \<Rightarrow> Inl e
      | Inr userDays \<Rightarrow>
          (let dates = sort (Object_keys userDays) in
           if length dates < 2 then Inr 0
           else (case retention_loop dates userDays (0, 0) of
                   (retentionSum, comparisons) \<Rightarrow>
                     Inr (if comparisons > 0 then retentionSum / real comparisons * 100 else 0))))"

text \<open>
  \<open>topSource\<close> is the first name after sorting the sources; where that order is left to
  the engine the field records it.
\<close>

record AnalysisSummary =
  totalQueries :: nat
  uniqueUsers :: nat
  avgQueriesPerUser :: real
  retentionRate :: real
  topSource :: "error + jstring"
  busiestDay :: jstring

definition first_name :: "jstring list \<Rightarrow> jstring" where
  "first_name names = (case names of [] \<Rightarrow> ascii ''N/A'' | n # _ \<Rightarrow> if n = [] then ascii ''N/A'' else n)"

definition getSummaryStats :: "SmmLogEntry list \<Rightarrow> error + AnalysisSummary" where
  "getSummaryStats data =
     (let total = length data;
          users = length (new_Set (map userId data));
          avg = (if users > 0 then real total / real users else 0);
          sources = getSourceDistribution data;
          top = (case sort_desc_val sources of
                   Inl e \<Rightarrow> Inl e
                 | Inr ranked \<Rightarrow> Inr (first_name (map fst ranked)))
      in case getDailyTrend data of
           Inl e \<Rightarrow> Inl e
         | Inr trends \<Rightarrow>
             (let busiest = first_name (map date (sort_desc queries trends)) in
              case calculateRetention data of
                Inl e \<Rightarrow> Inl e
              | Inr rate \<Rightarrow>
                  Inr \<lparr>totalQueries = total, uniqueUsers = users,
                       avgQueriesPerUser = avg, retentionRate = rate,
                       topSource = top, busiestDay = busiest\<rparr>))"

section \<open>The views in the words of the specification\<close>

subsection \<open>Ingestion\<close>

text \<open>
  Reading a field of a record by its name in the header table.
\<close>

definition get_field :: "string \<Rightarrow> SmmLogEntry \<Rightarrow> jstring" where
  "get_field name e =
     (if name = ''questionId'' then questionId e
      else if name = ''content'' then content e
      else if name = ''time'' then time e
      else if name = ''source'' then source e
      else if name = ''userId'' then userId e
      else if name = ''company'' then company e
      else if name = ''userName'' then userName e
      else if name = ''nickname'' then nickname e
      else if name = ''email'' then email e
      else if name = ''feedbackStatus'' then feedbackStatus e
      else if name = ''feedbackContent'' then feedbackContent e
      else [])"

subsection \<open>Hours\<close>

text \<open>
  The hour of a timestamp as the specification reads it: of the substring after the first
  space, what stands before the first \<open>:\<close>, parsed as an integer, when it lies in
  \<open>[0, 23]\<close>.
\<close>

definition hour_in_range :: "int option \<Rightarrow> nat option" where
  "hour_in_range p = (case p of None \<Rightarrow> None
     | Some n \<Rightarrow> if 0 \<le> n \<and> n < 24 then Some (nat n) else None)"

definition spec_hour :: "jstring \<Rightarrow> nat option" where
  "spec_hour t =
     (if 32 \<in> set t
      then hour_in_range (parseInt (takeWhile (\<lambda>c. c \<noteq> 58) (tl (dropWhile (\<lambda>c. c \<noteq> 32) t))))
      else None)"

text \<open>
  The same with the piece between the first and the second space (up to the end of the
  timestamp when there is no second space) in place of all that follows the first space.
\<close>

definition piece_hour :: "jstring \<Rightarrow> nat option" where
  "piece_hour t =
     (if 32 \<in> set t
      then hour_in_range (parseInt (takeWhile (\<lambda>c. c \<noteq> 58)
             (takeWhile (\<lambda>c. c \<noteq> 32) (tl (dropWhile (\<lambda>c. c \<noteq> 32) t)))))
      else None)"

subsection \<open>Intents and vocabularies\<close>

text \<open>
  The intent of a content: the label of the first of the five patterns that matches, the
  catch-all label when none does.
\<close>

definition spec_intent :: "jstring \<Rightarrow> jstring" where
  "spec_intent s =
     (case find (\<lambda>(label, pattern). test pattern s) (butlast intents) of
        Some (label, pattern) \<Rightarrow> label
      | None \<Rightarrow> other)"

text \<open>
  The counts of a vocabulary: each term, in the order of the table, with the number of
  records whose content contains it.
\<close>

definition term_counts :: "jstring list \<Rightarrow> SmmLogEntry list \<Rightarrow> (jstring \<times> nat) list" where
  "term_counts terms data =
     map (\<lambda>m. (m, length (filter (\<lambda>e. includes_str (content e) m) data))) terms"

subsection \<open>Companies and sources\<close>

text \<open>
  The bucket of a record in the company ranking: the aggregate label for an internal
  record, else the trimmed company, none when that is empty.
\<close>

definition bucket :: "SmmLogEntry \<Rightarrow> jstring option" where
  "bucket e =
     (if isInternalUser e then Some INTERNAL_LABEL
      else if trim (company e) = [] then None else Some (trim (company e)))"

definition buckets :: "SmmLogEntry list \<Rightarrow> jstring list" where
  "buckets data = List.map_filter bucket data"

text \<open>
  The distinct elements of a list in the order of their first occurrence.
\<close>

definition first_seen :: "'a list \<Rightarrow> 'a list" where
  "first_seen xs = rev (remdups (rev xs))"

text \<open>
  The company ranking as the specification words it: the buckets in first-seen order
  with their counts, sorted by descending count (stable, so that ties keep the first-seen
  order), the first ten.
\<close>

definition spec_topCompanies :: "SmmLogEntry list \<Rightarrow> (jstring \<times> jsval) list" where
  "spec_topCompanies data =
     take 10 (sort_desc (\<lambda>(k, v). num_of v)
       (map (\<lambda>l. (l, Num (count_list (buckets data) l))) (first_seen (buckets data))))"

text \<open>
  The buckets with their counts in the order in which \<open>Object.entries\<close> lists them:
  the names that are array indices first, by ascending number, then the other names in
  first-seen order.
\<close>

definition company_table :: "SmmLogEntry list \<Rightarrow> (jstring \<times> jsval) list" where
  "company_table data =
     Object_entries (map (\<lambda>l. (l, Num (count_list (buckets data) l))) (first_seen (buckets data)))"

text \<open>
  The label under which a record is counted by source, and the labels with their counts
  in the order in which \<open>Object.keys\<close> lists them.
\<close>

definition source_label :: "SmmLogEntry \<Rightarrow> jstring" where
  "source_label e = (if source e = [] then ascii ''Unknown'' else source e)"

definition source_table :: "SmmLogEntry list \<Rightarrow> (jstring \<times> jsval) list" where
  "source_table data =
     Object_entries (map (\<lambda>l. (l, Num (length (filter (\<lambda>e. source_label e = l) data))))
       (first_seen (map source_label data)))"

subsection \<open>Dates\<close>

text \<open>
  The date portion of a timestamp: what stands before its first space. A date portion
  parses as a date when it has the form \<open>YYYY-MM-DD\<close> of the data model.
\<close>

definition date_of :: "SmmLogEntry \<Rightarrow> jstring" where
  "date_of e = takeWhile (\<lambda>c. c \<noteq> 32) (time e)"

definition is_calendar_date :: "jstring \<Rightarrow> bool" where
  "is_calendar_date d \<longleftrightarrow>
     length d = 10 \<and> d ! 4 = 45 \<and> d ! 7 = 45
     \<and> list_all is_digit (take 4 d) \<and> list_all is_digit (take 2 (drop 5 d))
     \<and> list_all is_digit (drop 8 d)"

text \<open>
  The daily trend in the words of the specification: the dates present (the non-empty
  date portions), ascending by code units, each with the number of its records and the
  number of distinct non-empty user ids among them.
\<close>

definition dates_present :: "SmmLogEntry list \<Rightarrow> jstring list" where
  "dates_present data = sort (remdups (filter (\<lambda>d. d \<noteq> []) (map date_of data)))"

definition spec_dailyTrend :: "SmmLogEntry list \<Rightarrow> DailyTrend list" where
  "spec_dailyTrend data =
     map (\<lambda>d. \<lparr>date = d,
               queries = length (filter (\<lambda>e. date_of e = d) data),
               dau = card (set (filter (\<lambda>u. u \<noteq> [])
                       (map userId (filter (\<lambda>e. date_of e = d) data))))\<rparr>)
       (dates_present data)"

text \<open>
  The retention rate in the words of the specification. The user set of a date holds the
  user ids of its records, the empty one included; the dates are the distinct date
  portions, ascending; the rate is 100 times the mean, over the pairs of consecutive
  dates whose first user set is not empty, of the share of the first set that is in the
  second.
\<close>

definition users_on :: "SmmLogEntry list \<Rightarrow> jstring \<Rightarrow> jstring set" where
  "users_on data d = set (map userId (filter (\<lambda>e. date_of e = d) data))"

fun consecutive :: "'a list \<Rightarrow> ('a \<times> 'a) list" where
  "consecutive (x # y # ys) = (x, y) # consecutive (y # ys)"
| "consecutive ys = []"

definition spec_retention :: "SmmLogEntry list \<Rightarrow> real" where
  "spec_retention data =
     (let dates = sort (remdups (map date_of data));
          pairs = filter (\<lambda>(d, d'). users_on data d \<noteq> {}) (consecutive dates);
          ratios = map (\<lambda>(d, d'). real (card (users_on data d \<inter> users_on data d'))
                                   / real (card (users_on data d))) pairs
      in if length dates < 2 \<or> pairs = [] then 0
         else 100 * (sum_list ratios / real (length ratios)))"

section \<open>The objects that the loops build\<close>

text \<open>
  The bucket that the loop of \<open>getDailyTrend\<close> holds for a date after the records
  \<open>data\<close>, and the object of all buckets.
\<close>

definition day_entry :: "SmmLogEntry list \<Rightarrow> jstring \<Rightarrow> nat \<times> jstring list" where
  "day_entry data d =
     (length (filter (\<lambda>e. date_of e = d) data),
      new_Set (filter (\<lambda>u. u \<noteq> []) (map userId (filter (\<lambda>e. date_of e = d) data))))"

definition stats_of :: "SmmLogEntry list \<Rightarrow> day_stats" where
  "stats_of data =
     map (\<lambda>d. (d, day_entry data d)) (first_seen (filter (\<lambda>d. d \<noteq> []) (map date_of data)))"

text \<open>
  The set that the loop of \<open>calculateRetention\<close> holds for a date after the records
  \<open>data\<close>, and the object of all sets.
\<close>

definition day_users :: "SmmLogEntry list \<Rightarrow> jstring \<Rightarrow> jstring list" where
  "day_users data d = new_Set (map userId (filter (\<lambda>e. date_of e = d) data))"

definition userDays_of :: "SmmLogEntry list \<Rightarrow> (jstring \<times> jstring list) list" where
  "userDays_of data = map (\<lambda>d. (d, day_users data d)) (first_seen (map date_of data))"

section \<open>Rows and records of the examples\<close>

text \<open>
  Two rows: one whose content is two ideographs (U+4F60 U+597D, a greeting) between
  spaces, one whose content is a space and a tab.
\<close>

definition row_hello :: raw_row where
  "row_hello = [[38382, 39064, 20869, 23481] \<mapsto> [32, 20320, 22909, 32],
                [25552, 38382, 26102, 38388] \<mapsto> ascii ''2024-01-01 09:15:00'']"

definition row_blank :: raw_row where
  "row_blank = [[38382, 39064, 20869, 23481] \<mapsto> [32, 9],
                [25552, 38382, 26102, 38388] \<mapsto> ascii ''2024-01-01 09:15:00'']"

text \<open>
  The record of the first scenario of the specification, a record of a user at a time,
  and a record whose timestamp has two spaces between date and time.
\<close>

definition morning_entry :: SmmLogEntry where
  "morning_entry = blank_entry\<lparr>content := [20320, 22909], time := ascii ''2024-01-01 09:15:00'', userId := ascii ''u1''\<rparr>"

definition visit :: "string \<Rightarrow> string \<Rightarrow> SmmLogEntry" where
  "visit t u = blank_entry\<lparr>content := ascii ''price'', time := ascii t, userId := ascii u\<rparr>"

definition double_space_entry :: SmmLogEntry where
  "double_space_entry = blank_entry\<lparr>content := ascii ''price'', time := ascii ''2024-01-01  10:00:00''\<rparr>"

text \<open>
  Records of three companies: two external ones and one that the internal rule
  matches.
\<close>

definition abc_entry :: SmmLogEntry where
  "abc_entry = blank_entry\<lparr>content := ascii ''price'', time := ascii ''2024-01-01 09:15:00'',
     company := ascii ''abc''\<rparr>"

definition seven_entry :: SmmLogEntry where
  "seven_entry = blank_entry\<lparr>content := ascii ''price'', time := ascii ''2024-01-01 09:15:00'',
     company := ascii ''7''\<rparr>"

definition smm_entry :: SmmLogEntry where
  "smm_entry = blank_entry\<lparr>content := ascii ''price'', time := ascii ''2024-01-01 09:15:00'',
     company := ascii ''SMM Ltd''\<rparr>"

text \<open>
  Records that pass ingestion (content and time are not empty and are trimmed) and
  carry the name of a member of \<open>Object.prototype\<close> as source or as date portion, and
  one whose date portion is the word \<open>garbage\<close>.
\<close>

definition proto_source_entry :: SmmLogEntry where
  "proto_source_entry = blank_entry\<lparr>content := ascii ''price'', time := ascii ''2024-01-01 09:15:00'',
     source := ascii ''__proto__'', userId := ascii ''u1''\<rparr>"

definition constructor_source_entry :: SmmLogEntry where
  "constructor_source_entry = blank_entry\<lparr>content := ascii ''price'',
     time := ascii ''2024-01-01 09:15:00'', source := ascii ''constructor'', userId := ascii ''u1''\<rparr>"

definition constructor_date_entry :: SmmLogEntry where
  "constructor_date_entry = blank_entry\<lparr>content := ascii ''price'',
     time := ascii ''constructor 09:15:00'', userId := ascii ''u1''\<rparr>"

definition garbage_entry :: SmmLogEntry where
  "garbage_entry = visit ''garbage 10:00:00'' ''u1''"

section \<open>Normalized rows\<close>

lemma dropWhile_rev_dropWhile:
  assumes "xs = [] \<or> \<not> P (hd xs)"
  shows "dropWhile P (rev (dropWhile P (rev xs))) = rev (dropWhile P (rev xs))"
  using assms
  by (metis Nil_is_rev_conv dropWhile_eq_self_iff dropWhile_last hd_rev last_in_set last_rev)

lemma trim_trim: "trim (trim s) = trim s"
proof -
  have "dropWhile is_ws s = [] \<or> \<not> is_ws (hd (dropWhile is_ws s))"
    by (metis hd_dropWhile)
  from dropWhile_rev_dropWhile [of "dropWhile is_ws s" is_ws, OF this] show ?thesis
    by (simp add: trim_def)
qed

lemma trim_Nil: "trim [] = []"
  by (simp add: trim_def)

lemma cell_eq: "cell row k = (case row k of None \<Rightarrow> [] | Some val \<Rightarrow> trim val)"
  by (simp add: cell_def trim_Nil split: option.split)

lemma trim_cell: "trim (cell row k) = cell row k"
  by (simp add: cell_eq trim_trim trim_Nil split: option.split)

lemma newRow_fields:
  "questionId (newRow row) = cell row [38382, 39064, 73, 68]"
  "content (newRow row) = cell row [38382, 39064, 20869, 23481]"
  "time (newRow row) = cell row [25552, 38382, 26102, 38388]"
  "source (newRow row) = cell row [26469, 28304]"
  "userId (newRow row) = cell row [29992, 25143, 73, 68]"
  "company (newRow row) = cell row [20844, 21496, 21517]"
  "userName (newRow row) = cell row [29992, 25143, 22995, 21517]"
  "nickname (newRow row) = cell row [29992, 25143, 26165, 31216]"
  "email (newRow row) = cell row [37038, 31665]"
  "feedbackStatus (newRow row) = cell row [21453, 39304, 29366, 24577]"
  "feedbackContent (newRow row) = cell row [21453, 39304, 20869, 23481]"
  by (simp_all add: newRow_def HEADER_MAPPING_def set_field_def blank_entry_def)


lemma newRow_get_field:
  assumes "(zhKey, name) \<in> set HEADER_MAPPING"
  shows "get_field name (newRow row) = cell row zhKey"
  using assms unfolding HEADER_MAPPING_def set_simps insert_iff empty_iff prod.inject
  apply (elim disjE conjE FalseE)
  apply (simp_all add: get_field_def newRow_fields)
  done


lemma parseCSV_append: "parseCSV (pre @ post) = parseCSV pre @ parseCSV post"
  by (simp add: parseCSV_def)

lemma parseCSV_Cons:
  "parseCSV (row # post) =
     (if content (newRow row) \<noteq> [] \<and> time (newRow row) \<noteq> [] then newRow row # parseCSV post
      else parseCSV post)"
  by (simp add: parseCSV_def)

text \<open>
  C1. Every record that \<open>parseCSV\<close> returns has a content and a time that are not empty
  and are trimmed. A row whose trimmed content or trimmed time is empty is dropped: the
  result is the one of the rows without it, so no view, each a function of the result,
  sees it; any other row contributes its record in place. Each field of a record is the
  trimmed cell under its header, and the empty string when the row has no such cell.
\<close>

theorem parseCSV_normalized:
  "(\<forall>e \<in> set (parseCSV rows).
      content e \<noteq> [] \<and> trim (content e) = content e \<and> time e \<noteq> [] \<and> trim (time e) = time e)
   \<and> (\<forall>row pre post.
        content (newRow row) = [] \<or> time (newRow row) = []
        \<longrightarrow> parseCSV (pre @ row # post) = parseCSV (pre @ post))
   \<and> (\<forall>row pre post.
        content (newRow row) \<noteq> [] \<and> time (newRow row) \<noteq> []
        \<longrightarrow> parseCSV (pre @ row # post) = parseCSV pre @ newRow row # parseCSV post)
   \<and> (\<forall>row zhKey name. (zhKey, name) \<in> set HEADER_MAPPING \<longrightarrow>
        get_field name (newRow row) = (case row zhKey of None \<Rightarrow> [] | Some val \<Rightarrow> trim val))"
proof (intro conjI allI impI ballI)
  fix e assume "e \<in> set (parseCSV rows)"
  then obtain row where e: "e = newRow row" and ne: "content e \<noteq> []" "time e \<noteq> []"
    unfolding parseCSV_def by fastforce
  show "content e \<noteq> []" "time e \<noteq> []" by (rule ne)+
  show "trim (content e) = content e" "trim (time e) = time e"
    by (simp_all add: e newRow_fields trim_cell)
next
  fix row pre post
  assume "content (newRow row) = [] \<or> time (newRow row) = []"
  then show "parseCSV (pre @ row # post) = parseCSV (pre @ post)"
    by (simp add: parseCSV_append parseCSV_Cons)
next
  fix row pre post
  assume "content (newRow row) \<noteq> [] \<and> time (newRow row) \<noteq> []"
  then show "parseCSV (pre @ row # post) = parseCSV pre @ newRow row # parseCSV post"
    by (simp add: parseCSV_append parseCSV_Cons)
next
  fix row zhKey name
  assume "(zhKey, name) \<in> set HEADER_MAPPING"
  then show "get_field name (newRow row) = (case row zhKey of None \<Rightarrow> [] | Some val \<Rightarrow> trim val)"
    by (simp add: newRow_get_field cell_eq)
qed

lemma row_hello_fields:
  "content (newRow row_hello) = [20320, 22909]"
  "time (newRow row_hello) = ascii ''2024-01-01 09:15:00''"
  "source (newRow row_hello) = []"
  by (simp_all add: newRow_fields cell_def row_hello_def trim_def is_ws_def ascii_def)

lemma row_blank_fields:
  "content (newRow row_blank) = []"
  by (simp_all add: newRow_fields cell_def row_blank_def trim_def is_ws_def)

theorem parseCSV_normalized_witness:
  "parseCSV [row_blank, row_hello] = [newRow row_hello]
   \<and> content (newRow row_hello) = [20320, 22909]
   \<and> trim (content (newRow row_hello)) = content (newRow row_hello)
   \<and> get_field ''source'' (newRow row_hello) = []"
proof -
  note t = parseCSV_normalized [of "[row_blank, row_hello]"]
  note inv = t [THEN conjunct1, rule_format]
  note dropped = t [THEN conjunct2, THEN conjunct1, rule_format]
  note kept = t [THEN conjunct2, THEN conjunct2, THEN conjunct1, rule_format]
  note fld = t [THEN conjunct2, THEN conjunct2, THEN conjunct2, rule_format]
  have "parseCSV ([] @ row_blank # [row_hello]) = parseCSV ([] @ [row_hello])"
    by (rule dropped) (simp add: row_blank_fields)
  moreover have "parseCSV ([] @ row_hello # []) = parseCSV [] @ newRow row_hello # parseCSV []"
    by (rule kept) (simp add: row_hello_fields ascii_def)
  ultimately have all: "parseCSV [row_blank, row_hello] = [newRow row_hello]"
    by (simp add: parseCSV_def)
  then have "newRow row_hello \<in> set (parseCSV [row_blank, row_hello])"
    by simp
  from inv [OF this] have "trim (content (newRow row_hello)) = content (newRow row_hello)"
    by simp
  moreover have "([26469, 28304], ''source'') \<in> set HEADER_MAPPING"
    by (simp add: HEADER_MAPPING_def)
  from fld [OF this, of row_hello] have "get_field ''source'' (newRow row_hello) = []"
    by (simp add: row_hello_def)
  ultimately show ?thesis
    using all row_hello_fields(1) by simp
qed

section \<open>User types\<close>

lemma sum_filter_pos: "sum_list (map snd (filter (\<lambda>(name, v). v > 0) xs)) = sum_list (map snd xs)"
  for xs :: "('a \<times> nat) list"
  by (induction xs) auto

lemma user_type_step_apply:
  "user_type_step e (a, b, c) =
     (if isInternalUser e then (a + 1, b, c)
      else if trim (company e) \<noteq> [] then (a, b + 1, c) else (a, b, c + 1))"
proof -
  have "trim (company e) \<noteq> [] \<Longrightarrow> company e \<noteq> []"
    by (auto simp add: trim_Nil)
  then show ?thesis
    by (auto simp add: user_type_step_def)
qed

lemma fold_user_type_step:
  "fold user_type_step data (a, b, c) =
     (a + length (filter isInternalUser data),
      b + length (filter (\<lambda>e. \<not> isInternalUser e \<and> trim (company e) \<noteq> []) data),
      c + length (filter (\<lambda>e. \<not> isInternalUser e \<and> trim (company e) = []) data))"
  by (induction data arbitrary: a b c) (simp_all add: user_type_step_apply)

lemma three_way_partition:
  "length (filter P data) + length (filter (\<lambda>e. \<not> P e \<and> Q e) data)
     + length (filter (\<lambda>e. \<not> P e \<and> \<not> Q e) data) = length data"
  by (induction data) auto

text \<open>
  C7. \<open>getUserTypeDistribution\<close> counts every record in exactly one of three segments:
  internal when the internal-user rule matches, else external when the trimmed company
  is not empty, else unknown. It returns the segments with a count above zero, in the
  order internal, external, unknown, and their counts add up to the number of records.
\<close>

theorem getUserTypeDistribution_partition:
  "getUserTypeDistribution data =
     filter (\<lambda>(name, v). v > 0)
       [([20869, 37096, 21592, 24037], length (filter isInternalUser data)),
        ([22806, 37096, 23458, 25143],
           length (filter (\<lambda>e. \<not> isInternalUser e \<and> trim (company e) \<noteq> []) data)),
        ([26410, 30693],
           length (filter (\<lambda>e. \<not> isInternalUser e \<and> trim (company e) = []) data))]
   \<and> sum_list (map snd (getUserTypeDistribution data)) = length data"
proof -
  have eq: "getUserTypeDistribution data =
     filter (\<lambda>(name, v). v > 0)
       [([20869, 37096, 21592, 24037], length (filter isInternalUser data)),
        ([22806, 37096, 23458, 25143],
           length (filter (\<lambda>e. \<not> isInternalUser e \<and> trim (company e) \<noteq> []) data)),
        ([26410, 30693],
           length (filter (\<lambda>e. \<not> isInternalUser e \<and> trim (company e) = []) data))]"
    unfolding getUserTypeDistribution_def fold_user_type_step by simp
  have "sum_list (map snd (getUserTypeDistribution data)) = length data"
    unfolding eq sum_filter_pos
    using three_way_partition [of isInternalUser data "\<lambda>e. trim (company e) \<noteq> []"]
    by simp
  with eq show ?thesis by (rule conjI)
qed

section \<open>Counters kept in an object\<close>

lemma Object_entries_plain:
  "list_all (\<lambda>(k, v). \<not> is_array_index k) obj \<Longrightarrow> Object_entries obj = obj"
proof -
  assume a: "list_all (\<lambda>(k, v). \<not> is_array_index k) obj"
  then have "filter (\<lambda>(k, v). is_array_index k) obj = []"
    by (induction obj) auto
  moreover from a have "filter (\<lambda>(k, v). \<not> is_array_index k) obj = obj"
    by (induction obj) auto
  ultimately show ?thesis
    by (simp add: Object_entries_def)
qed

lemma map_entry_tabulate:
  "distinct ks \<Longrightarrow>
   AList.map_entry k g (map (\<lambda>k. (k, f k)) ks) = map (\<lambda>k'. (k', if k' = k then g (f k') else f k')) ks"
  by (induction ks) auto

lemma fold_map_entry_count:
  "distinct ks \<Longrightarrow>
   fold (\<lambda>e. AList.map_entry (key e) Suc) data (map (\<lambda>k. (k, f k)) ks)
     = map (\<lambda>k. (k, f k + length (filter (\<lambda>e. key e = k) data))) ks"
proof (induction data arbitrary: f)
  case Nil
  then show ?case by simp
next
  case (Cons e data)
  show ?case
    by (simp add: map_entry_tabulate [OF Cons.prems] Cons.IH [OF Cons.prems] cong: map_cong)
qed

lemma length_filter_disjoint:
  "(\<And>x. x \<in> set xs \<Longrightarrow> \<not> (P x \<and> Q x)) \<Longrightarrow>
   length (filter (\<lambda>x. P x \<or> Q x) xs) = length (filter P xs) + length (filter Q xs)"
  by (induction xs) auto

lemma sum_counts_by_key:
  "distinct ks \<Longrightarrow>
   (\<Sum>k\<leftarrow>ks. length (filter (\<lambda>e. key e = k) data)) = length (filter (\<lambda>e. key e \<in> set ks) data)"
proof (induction ks)
  case Nil
  then show ?case by simp
next
  case (Cons k ks)
  have "length (filter (\<lambda>e. key e = k \<or> key e \<in> set ks) data)
      = length (filter (\<lambda>e. key e = k) data) + length (filter (\<lambda>e. key e \<in> set ks) data)"
    using Cons.prems by (intro length_filter_disjoint) auto
  with Cons show ?case by simp
qed

section \<open>Intents\<close>

lemma first_match_find:
  "other \<notin> fst ` set tbl \<Longrightarrow>
   first_match (tbl @ [(other, r)]) s = map_option fst (find (\<lambda>(label, pattern). test pattern s) tbl)"
  by (induction tbl) (auto simp del: test.simps)

lemma intents_split: "intents = butlast intents @ [(other, AnyString)]"
  by (simp add: intents_def other_def)

lemma other_not_pattern: "other \<notin> fst ` set (butlast intents)"
  by (simp add: intents_def other_def)

lemma intents_plain: "list_all (\<lambda>(k, v). \<not> is_array_index k) intents"
  by (simp add: intents_def is_array_index_def is_digit_def)

lemma intent_keys: "map fst intents =
  [[38386, 32842, 47, 38382, 20505], [34892, 24773, 47, 20215, 26684],
   [36235, 21183, 47, 39044, 27979], [25968, 25454, 47, 24211, 23384],
   [30693, 35782, 47, 30334, 31185], [20854, 20182]]"
  by (simp add: intents_def)


lemma intent_step_eq: "intent_step e = AList.map_entry (spec_intent (content e)) Suc"
proof -
  have "first_match (Object_entries intents) s
      = map_option fst (find (\<lambda>(label, pattern). test pattern s) (butlast intents))" for s
    using first_match_find [OF other_not_pattern, of AnyString s] intents_split
    by (simp add: Object_entries_plain [OF intents_plain])
  then show ?thesis
    by (auto simp add: intent_step_def spec_intent_def fun_eq_iff split: option.split)
qed

lemma spec_intent_label: "spec_intent s \<in> set (map fst intents)"
proof (cases "find (\<lambda>(label, pattern). test pattern s) (butlast intents)")
  case None
  then have "spec_intent s = other"
    by (simp add: spec_intent_def)
  also have "other \<in> set (map fst intents)"
    by (subst intents_split) simp
  finally show ?thesis .
next
  case (Some p)
  then have "p \<in> set (butlast intents)"
    by (metis find_Some_iff nth_mem)
  then have "p \<in> set intents"
    by (rule in_set_butlastD)
  moreover from Some have "spec_intent s = fst p"
    by (simp add: spec_intent_def split: prod.split)
  ultimately show ?thesis by auto
qed

lemma distinct_intent_keys: "distinct (map fst intents)"
  by (simp add: intent_keys)

text \<open>
  C3. \<open>classifyIntents\<close> counts every record under exactly one label: the label of the
  first of the five patterns, in the order of the table, that its content matches, and
  the catch-all label when none matches. The result lists the six labels in the order of
  their declaration, each with its count, zero included, and the counts add up to the
  number of records.
\<close>

theorem classifyIntents_first_match:
  "classifyIntents data =
     map (\<lambda>label. (label, length (filter (\<lambda>e. spec_intent (content e) = label) data)))
       (map fst intents)
   \<and> sum_list (map snd (classifyIntents data)) = length data
   \<and> map fst (classifyIntents data) =
       [[38386, 32842, 47, 38382, 20505], [34892, 24773, 47, 20215, 26684],
        [36235, 21183, 47, 39044, 27979], [25968, 25454, 47, 24211, 23384],
        [30693, 35782, 47, 30334, 31185], [20854, 20182]]"
proof -
  let ?count = "\<lambda>label. length (filter (\<lambda>e. spec_intent (content e) = label) data)"
  let ?table = "map (\<lambda>label. (label, ?count label)) (map fst intents)"
  have init: "[([38386, 32842, 47, 38382, 20505], 0), ([34892, 24773, 47, 20215, 26684], 0),
       ([36235, 21183, 47, 39044, 27979], 0), ([25968, 25454, 47, 24211, 23384], 0),
       ([30693, 35782, 47, 30334, 31185], 0), ([20854, 20182], 0)]
     = map (\<lambda>k. (k, 0::nat)) (map fst intents)"
    by (simp add: intent_keys)
  have "fold intent_step data (map (\<lambda>k. (k, 0::nat)) (map fst intents)) = ?table"
    using fold_map_entry_count [OF distinct_intent_keys, of "\<lambda>e. spec_intent (content e)" data "\<lambda>k. 0"]
    by (simp add: intent_step_eq [abs_def])
  moreover have "list_all (\<lambda>(k, v). \<not> is_array_index k) ?table"
    using intents_plain by (simp add: list_all_iff case_prod_unfold)
  ultimately have eq: "classifyIntents data = ?table"
    unfolding classifyIntents_def init by (simp only: Object_entries_plain)
  have "sum_list (map snd ?table) = length (filter (\<lambda>e. spec_intent (content e) \<in> set (map fst intents)) data)"
    using sum_counts_by_key [OF distinct_intent_keys, of "\<lambda>e. spec_intent (content e)" data]
    by (simp add: comp_def)
  also have "\<dots> = length data"
    using spec_intent_label by simp
  finally have total: "sum_list (map snd (classifyIntents data)) = length data"
    by (simp only: eq)
  have "map fst ?table = map fst intents"
    by (simp add: comp_def)
  then have "map fst (classifyIntents data) = map fst intents"
    by (simp only: eq)
  with eq total show ?thesis
    by (simp only: intent_keys simp_thms)
qed

text \<open>The first scenario of the specification: the greeting of two ideographs is a chat.\<close>

lemma morning_intent: "spec_intent (content morning_entry) = [38386, 32842, 47, 38382, 20505]"
proof -
  have "content morning_entry = [20320, 22909]"
    by (simp add: morning_entry_def)
  moreover have "test (snd (hd intents)) [20320, 22909]"
    by (simp add: intents_def canonicalize_def)
  ultimately show ?thesis
    by (simp add: spec_intent_def intents_def del: test.simps)
qed

section \<open>Sorting by descending count\<close>

lemma sort_desc_descending: "sorted_wrt (\<lambda>a b. f b \<le> f a) (sort_desc f xs)"
proof -
  have "sorted (map (\<lambda>x. - int (f x)) (sort_desc f xs))"
    unfolding sort_desc_def by (rule sorted_sort_key)
  then show ?thesis
    by (simp add: sorted_map sorted_wrt_iff_nth_less)
qed

lemma sort_desc_stable: "filter (\<lambda>x. f x = c) (sort_desc f xs) = filter (\<lambda>x. f x = c) xs"
proof -
  have "filter (\<lambda>x. - int (f x) = - int c) (sort_desc f xs) = filter (\<lambda>x. - int (f x) = - int c) xs"
    unfolding sort_desc_def by (rule sort_key_stable)
  then show ?thesis by simp
qed

lemma filter_sort_desc: "filter P (sort_desc f xs) = sort_desc f (filter P xs)"
  unfolding sort_desc_def by (rule filter_sort)

section \<open>Metals and keywords\<close>

lemma update_fresh: "k \<notin> fst ` set al \<Longrightarrow> AList.update k v al = al @ [(k, v)]"
  by (induction al) auto

lemma fold_update_zero:
  "distinct ms \<Longrightarrow> set ms \<inter> fst ` set acc = {} \<Longrightarrow>
   fold (\<lambda>m counts. AList.update m (0::nat) counts) ms acc = acc @ map (\<lambda>m. (m, 0)) ms"
proof (induction ms arbitrary: acc)
  case Nil
  then show ?case by simp
next
  case (Cons m ms)
  from Cons.prems have "m \<notin> fst ` set acc" by auto
  then have "AList.update m 0 acc = acc @ [(m, 0)]" by (rule update_fresh)
  moreover from Cons.prems have "set ms \<inter> fst ` set (acc @ [(m, 0)]) = {}" by auto
  ultimately show ?case
    using Cons.IH [of "acc @ [(m, 0)]"] Cons.prems by simp
qed

lemma zero_counts_eq: "distinct terms \<Longrightarrow> zero_counts terms = map (\<lambda>m. (m, 0)) terms"
  using fold_update_zero [of terms "[]"] by (simp add: zero_counts_def)

lemma fold_terms_entry:
  "distinct terms \<Longrightarrow>
   fold (\<lambda>m c. if P m then AList.map_entry m Suc c else c) ms (map (\<lambda>m. (m, f m)) terms)
     = map (\<lambda>m. (m, f m + length (filter (\<lambda>m'. m' = m \<and> P m') ms))) terms"
proof (induction ms arbitrary: f)
  case Nil
  then show ?case by simp
next
  case (Cons m ms)
  show ?case
    by (simp add: map_entry_tabulate [OF Cons.prems] Cons.IH [OF Cons.prems] cong: map_cong)
qed

lemma count_own_occurrence:
  "distinct ms \<Longrightarrow> m \<in> set ms \<Longrightarrow> length (filter (\<lambda>m'. m' = m \<and> P m') ms) = (if P m then 1 else 0)"
  by (induction ms) (auto simp add: filter_empty_conv)

lemma count_terms_eq:
  assumes "distinct terms"
  shows "count_terms terms e (map (\<lambda>m. (m, f m)) terms)
     = map (\<lambda>m. (m, f m + (if includes_str (content e) m then 1 else 0))) terms"
  unfolding count_terms_def fold_terms_entry [OF assms]
  by (rule map_cong) (simp_all add: count_own_occurrence [OF assms])

lemma fold_count_terms:
  assumes "distinct terms"
  shows "fold (count_terms terms) data (map (\<lambda>m. (m, f m)) terms)
     = map (\<lambda>m. (m, f m + length (filter (\<lambda>e. includes_str (content e) m) data))) terms"
proof (induction data arbitrary: f)
  case Nil
  then show ?case by simp
next
  case (Cons e data)
  show ?case
    by (simp add: count_terms_eq [OF assms] Cons.IH cong: map_cong)
qed

lemma counts_of_terms:
  "distinct terms \<Longrightarrow> fold (count_terms terms) data (zero_counts terms) = term_counts terms data"
  using fold_count_terms [of terms data "\<lambda>m. 0"]
  by (simp add: zero_counts_eq term_counts_def)

lemma distinct_metals: "distinct metals"
  by (simp add: metals_def)

lemma distinct_topKeywords: "distinct topKeywords"
  by (simp add: topKeywords_def)

lemma metals_plain: "list_all (\<lambda>k. \<not> is_array_index k) metals"
  by (simp add: metals_def is_array_index_def is_digit_def)

lemma topKeywords_plain: "list_all (\<lambda>k. \<not> is_array_index k) topKeywords"
  by (simp add: topKeywords_def is_array_index_def is_digit_def)


lemma term_counts_plain:
  "list_all (\<lambda>k. \<not> is_array_index k) terms \<Longrightarrow>
   list_all (\<lambda>(k, v). \<not> is_array_index k) (term_counts terms data)"
  by (simp add: term_counts_def list_all_iff)

lemma map_of_term_counts:
  "map (\<lambda>keyword. (keyword, case map_of (term_counts terms data) keyword of Some c \<Rightarrow> c | None \<Rightarrow> 0))
     (map fst (term_counts terms data)) = term_counts terms data"
proof -
  have "map_of (term_counts terms data) m
      = Some (length (filter (\<lambda>e. includes_str (content e) m) data))" if "m \<in> set terms" for m
    using that unfolding term_counts_def by (induction terms) auto
  then show ?thesis
    by (simp add: term_counts_def comp_def cong: map_cong)
qed

lemma getMetalDistribution_eq:
  "getMetalDistribution data = sort_desc snd (filter (\<lambda>(m, n). n > 0) (term_counts metals data))"
  by (simp add: getMetalDistribution_def counts_of_terms [OF distinct_metals]
      Object_entries_plain [OF term_counts_plain [OF metals_plain]])

lemma getTopKeywords_eq:
  "getTopKeywords data = sort_desc snd (filter (\<lambda>(m, n). n > 0) (term_counts topKeywords data))"
  unfolding getTopKeywords_def Let_def counts_of_terms [OF distinct_topKeywords] Object_keys_def
    Object_entries_plain [OF term_counts_plain [OF topKeywords_plain]]
    map_of_term_counts filter_sort_desc
  by (rule refl)

lemma ranked_ties:
  "filter (\<lambda>(m, n). n = c) (sort_desc snd (filter (\<lambda>(m, n). n > 0) xs))
     = filter (\<lambda>(m, n). n = c \<and> c > 0) xs" for xs :: "('a \<times> nat) list"
proof -
  have "filter (\<lambda>x. snd x = c) (sort_desc snd (filter (\<lambda>(m, n). n > 0) xs))
      = filter (\<lambda>x. snd x = c) (filter (\<lambda>(m, n). n > 0) xs)"
    by (rule sort_desc_stable)
  then show ?thesis
    by (simp add: case_prod_unfold conj_commute cong: conj_cong)
qed

lemma includes_str_sublist: "includes_str s m \<longleftrightarrow> sublist m s"
  by (induction s) (simp_all add: sublist_Cons_right)

text \<open>
  C9. \<open>getMetalDistribution\<close> and \<open>getTopKeywords\<close> count, for each term of their
  vocabulary, the records whose content contains the term as a contiguous run of code
  units (case matters). They return the terms with a count above zero, sorted by
  descending count; the terms with one and the same count stand in the order of the
  table.
\<close>

theorem multi_label_distributions:
  "getMetalDistribution data = sort_desc snd (filter (\<lambda>(m, n). n > 0) (term_counts metals data))
   \<and> sorted_wrt (\<lambda>a b. snd b \<le> snd a) (getMetalDistribution data)
   \<and> filter (\<lambda>(m, n). n = c) (getMetalDistribution data)
       = filter (\<lambda>(m, n). n = c \<and> c > 0) (term_counts metals data)
   \<and> getTopKeywords data = sort_desc snd (filter (\<lambda>(m, n). n > 0) (term_counts topKeywords data))
   \<and> sorted_wrt (\<lambda>a b. snd b \<le> snd a) (getTopKeywords data)
   \<and> filter (\<lambda>(m, n). n = c) (getTopKeywords data)
       = filter (\<lambda>(m, n). n = c \<and> c > 0) (term_counts topKeywords data)
   \<and> (includes_str s m \<longleftrightarrow> sublist m s)"
  unfolding getMetalDistribution_eq getTopKeywords_eq
  by (intro conjI refl sort_desc_descending ranked_ties includes_str_sublist)

section \<open>Hours\<close>

lemma split_not_Nil: "split sep s \<noteq> []"
  by (induction s) (auto simp add: split.simps)

lemma hd_split: "hd (split sep s) = takeWhile (\<lambda>c. c \<noteq> sep) s"
  by (induction s) (auto simp add: split.simps)

lemma tl_split:
  "tl (split sep s) = (if sep \<in> set s then split sep (tl (dropWhile (\<lambda>c. c \<noteq> sep) s)) else [])"
  by (induction s) (auto simp add: split.simps)

lemma at_index_one: "at_index xs (Suc 0) = (case tl xs of [] \<Rightarrow> None | y # ys \<Rightarrow> Some y)"
  by (cases xs; cases "tl xs") auto

lemma second_piece:
  "at_index (split 32 t) (Suc 0) =
     (if 32 \<in> set t then Some (takeWhile (\<lambda>c. c \<noteq> 32) (tl (dropWhile (\<lambda>c. c \<noteq> 32) t))) else None)"
proof (cases "32 \<in> set t")
  case True
  let ?r = "tl (dropWhile (\<lambda>c. c \<noteq> 32) t)"
  obtain y ys where "split 32 ?r = y # ys"
    using split_not_Nil [of 32 ?r] by (cases "split 32 ?r") auto
  moreover from this have "y = takeWhile (\<lambda>c. c \<noteq> 32) ?r"
    using hd_split [of 32 ?r] by simp
  ultimately show ?thesis
    using True by (simp add: at_index_one tl_split)
next
  case False
  then show ?thesis
    by (simp add: at_index_one tl_split)
qed

lemma parseInt_Nil: "parseInt [] = None"
  by (simp add: parseInt_def)

lemma hourly_step_eq:
  "hourly_step e counts =
     (case piece_hour (time e) of None \<Rightarrow> counts | Some h \<Rightarrow> counts[h := counts ! h + 1])"
proof (cases "32 \<in> set (time e)")
  case False
  then show ?thesis
    by (simp add: hourly_step_def second_piece piece_hour_def)
next
  case True
  let ?p = "takeWhile (\<lambda>c. c \<noteq> 32) (tl (dropWhile (\<lambda>c. c \<noteq> 32) (time e)))"
  show ?thesis
  proof (cases "?p = []")
    case True
    with \<open>32 \<in> set (time e)\<close> show ?thesis
      by (simp add: hourly_step_def second_piece piece_hour_def parseInt_Nil hour_in_range_def)
  next
    case False
    with \<open>32 \<in> set (time e)\<close> show ?thesis
      by (cases "parseInt (takeWhile (\<lambda>c. c \<noteq> 58) ?p)")
        (simp_all add: hourly_step_def second_piece piece_hour_def hour_in_range_def hd_split)
  qed
qed

lemma piece_hour_less: "piece_hour t = Some h \<Longrightarrow> h < 24"
  by (auto simp add: piece_hour_def hour_in_range_def split: if_splits option.splits)

lemma fold_hourly_step:
  "length counts = 24 \<Longrightarrow>
   fold hourly_step data counts =
     map (\<lambda>h. counts ! h + length (filter (\<lambda>e. piece_hour (time e) = Some h) data)) [0..<24]"
proof (induction data arbitrary: counts)
  case Nil
  then show ?case
    by (intro nth_equalityI) simp_all
next
  case (Cons e data)
  show ?case
  proof (cases "piece_hour (time e)")
    case None
    then show ?thesis
      using Cons by (simp add: hourly_step_eq)
  next
    case (Some h)
    then have "h < 24" by (rule piece_hour_less)
    have "fold hourly_step (e # data) counts = fold hourly_step data (counts[h := counts ! h + 1])"
      using Some by (simp add: hourly_step_eq)
    also have "\<dots> = map (\<lambda>k. counts[h := counts ! h + 1] ! k
          + length (filter (\<lambda>e. piece_hour (time e) = Some k) data)) [0..<24]"
      using Cons.prems by (intro Cons.IH) simp
    also have "\<dots> = map (\<lambda>k. counts ! k
          + length (filter (\<lambda>e. piece_hour (time e) = Some k) (e # data))) [0..<24]"
      using Some Cons.prems \<open>h < 24\<close> by (intro map_cong refl) (auto simp add: nth_list_update)
    finally show ?thesis .
  qed
qed

lemma enumerate_map_upt:
  "map (\<lambda>(i, x). (g i, x)) (enumerate 0 (map f [0..<n])) = map (\<lambda>i. (g i, f i)) [0..<n]"
  by (intro nth_equalityI) (simp_all add: nth_enumerate_eq)

lemma getHourlyStats_eq:
  "getHourlyStats data =
     map (\<lambda>h. (numeral_string h @ ascii '':00'',
                length (filter (\<lambda>e. piece_hour (time e) = Some h) data))) [0..<24]"
proof -
  have "fold hourly_step data (replicate 24 0)
      = map (\<lambda>h. length (filter (\<lambda>e. piece_hour (time e) = Some h) data)) [0..<24]"
    by (subst fold_hourly_step) (simp_all cong: map_cong)
  then show ?thesis
    unfolding getHourlyStats_def by (simp only: enumerate_map_upt)
qed

lemma hourly_total:
  "(\<Sum>h\<leftarrow>[0..<24]. length (filter (\<lambda>e. piece_hour (time e) = Some h) data))
     = length (filter (\<lambda>e. piece_hour (time e) \<noteq> None) data)"
proof -
  have "(\<Sum>k\<leftarrow>map Some [0..<24]. length (filter (\<lambda>e. piece_hour (time e) = k) data))
      = length (filter (\<lambda>e. piece_hour (time e) \<in> set (map Some [0..<24])) data)"
    by (rule sum_counts_by_key) (simp add: distinct_map)
  moreover have "piece_hour t \<in> set (map Some [0..<24]) \<longleftrightarrow> piece_hour t \<noteq> None" for t
    using piece_hour_less [of t] by (cases "piece_hour t") auto
  ultimately show ?thesis
    by (simp only: map_map comp_def)
qed


lemma takeWhile_digits_append:
  assumes "takeWhile is_digit u \<noteq> []" and "x = [] \<or> \<not> is_digit (hd x)"
  shows "takeWhile is_digit (u @ x) = takeWhile is_digit u"
proof (cases "\<forall>c \<in> set u. is_digit c")
  case True
  moreover from assms(2) have "takeWhile is_digit x = []"
    by (cases x) simp_all
  ultimately show ?thesis
    by (simp add: takeWhile_append2 takeWhile_eq_all_conv [THEN iffD2])
next
  case False
  then obtain c where "c \<in> set u" "\<not> is_digit c" by blast
  then show ?thesis
    by (rule takeWhile_append1)
qed

lemma parseInt_append:
  assumes "parseInt p = Some n" and "x = [] \<or> \<not> is_digit (hd x)"
  shows "parseInt (p @ x) = Some n"
proof -
  obtain c cs where t: "dropWhile is_ws p = c # cs"
    using assms(1) by (cases "dropWhile is_ws p") (simp_all add: parseInt_def)
  then have "c \<in> set p" "\<not> is_ws c"
    by (metis list.set_intros(1) set_dropWhileD, metis hd_dropWhile list.sel(1) list.simps(3))
  then have tx: "dropWhile is_ws (p @ x) = c # cs @ x"
    using t by (simp add: dropWhile_append1)
  let ?u = "if c = 45 \<or> c = 43 then cs else c # cs"
  from assms(1) t have d: "takeWhile is_digit ?u \<noteq> []"
    by (auto simp add: parseInt_def Let_def split: if_splits)
  have "takeWhile is_digit (?u @ x) = takeWhile is_digit ?u"
    using d assms(2) by (rule takeWhile_digits_append)
  moreover have "(if c = 45 \<or> c = 43 then cs @ x else c # cs @ x) = ?u @ x"
    by simp
  ultimately show ?thesis
    using assms(1) t tx d by (simp add: parseInt_def Let_def del: takeWhile_append split: if_splits)
qed

lemma takeWhile_inner_stop:
  "b \<in> set (takeWhile P xs) \<Longrightarrow> \<not> Q b \<Longrightarrow> takeWhile Q xs = takeWhile Q (takeWhile P xs)"
  by (induction xs) (auto split: if_splits)

lemma takeWhile_inner_all:
  "\<forall>b \<in> set (takeWhile P xs). Q b \<Longrightarrow>
   takeWhile Q xs = takeWhile P xs @ takeWhile Q (dropWhile P xs)"
  by (induction xs) (auto split: if_splits)

lemma after_piece:
  "takeWhile (\<lambda>c. c \<noteq> 58) (dropWhile (\<lambda>c. c \<noteq> 32) r) = []
   \<or> \<not> is_digit (hd (takeWhile (\<lambda>c. c \<noteq> 58) (dropWhile (\<lambda>c. c \<noteq> 32) r)))"
proof (cases "dropWhile (\<lambda>c. c \<noteq> 32) r")
  case Nil
  show ?thesis unfolding Nil by simp
next
  case (Cons c cs)
  with hd_dropWhile [of "\<lambda>c. c \<noteq> 32" r] have "c = 32" by simp
  with Cons show ?thesis
    by (simp add: is_digit_def)
qed

lemma piece_hour_spec_hour:
  assumes "piece_hour t = Some h"
  shows "spec_hour t = Some h"
proof -
  let ?r = "tl (dropWhile (\<lambda>c. c \<noteq> 32) t)"
  let ?p = "takeWhile (\<lambda>c. c \<noteq> 32) ?r"
  from assms have sp: "32 \<in> set t"
    by (simp add: piece_hour_def split: if_splits)
  with assms obtain n where n: "parseInt (takeWhile (\<lambda>c. c \<noteq> 58) ?p) = Some n"
    and h: "hour_in_range (Some n) = Some h"
    by (cases "parseInt (takeWhile (\<lambda>c. c \<noteq> 58) ?p)") (simp_all add: piece_hour_def hour_in_range_def)
  have "parseInt (takeWhile (\<lambda>c. c \<noteq> 58) ?r) = Some n"
  proof (cases "58 \<in> set ?p")
    case True
    then have "takeWhile (\<lambda>c. c \<noteq> 58) ?r = takeWhile (\<lambda>c. c \<noteq> 58) ?p"
      by (rule takeWhile_inner_stop) simp
    with n show ?thesis by (simp only:)
  next
    case False
    then have all: "\<forall>b \<in> set ?p. b \<noteq> 58" by blast
    then have "takeWhile (\<lambda>c. c \<noteq> 58) ?p = ?p"
      by (simp only: takeWhile_eq_all_conv)
    with n have "parseInt ?p = Some n" by (simp only:)
    from parseInt_append [OF this after_piece [of ?r]]
    show ?thesis
      by (simp only: takeWhile_inner_all [OF all])
  qed
  with sp h show ?thesis
    by (simp add: spec_hour_def)
qed

text \<open>
  C4, as amended. \<open>getHourlyStats\<close> returns exactly 24 entries, for the hours 0 to 23 in
  this order, labelled \<open>"H:00"\<close>. A record is counted at hour \<open>h\<close> iff the piece of its
  timestamp between the first and the second space (up to the end when there is no
  second space), cut before its first \<open>:\<close>, parses to \<open>h\<close> in \<open>[0, 23]\<close>; every
  other record is skipped, so the counts add up to the number of records with such an
  hour, which is at most the number of records. Whenever a record is counted at \<open>h\<close>,
  the hour the specification describes (with all that follows the first space in place
  of that piece) is \<open>h\<close> as well.
\<close>

theorem getHourlyStats_histogram:
  "getHourlyStats data =
     map (\<lambda>h. (numeral_string h @ ascii '':00'',
                length (filter (\<lambda>e. piece_hour (time e) = Some h) data))) [0..<24]
   \<and> length (getHourlyStats data) = 24
   \<and> sum_list (map snd (getHourlyStats data))
       = length (filter (\<lambda>e. piece_hour (time e) \<noteq> None) data)
   \<and> sum_list (map snd (getHourlyStats data)) \<le> length data
   \<and> (piece_hour t = Some h \<longrightarrow> spec_hour t = Some h \<and> h < 24)"
proof -
  have total: "sum_list (map snd (getHourlyStats data))
       = length (filter (\<lambda>e. piece_hour (time e) \<noteq> None) data)"
    unfolding getHourlyStats_eq using hourly_total [of data] by (simp add: comp_def)
  have "length (filter (\<lambda>e. piece_hour (time e) \<noteq> None) data) \<le> length data"
    by (rule length_filter_le)
  with total have "sum_list (map snd (getHourlyStats data)) \<le> length data"
    by simp
  moreover have "length (getHourlyStats data) = 24"
    unfolding getHourlyStats_eq by simp
  ultimately show ?thesis
    using total getHourlyStats_eq [of data] piece_hour_spec_hour [of t h] piece_hour_less [of t h]
    by blast
qed

lemma double_space_time:
  "time double_space_entry =
     [50, 48, 50, 52, 45, 48, 49, 45, 48, 49, 32, 32, 49, 48, 58, 48, 48, 58, 48, 48]"
  by (simp add: double_space_entry_def ascii_def)

lemma morning_time:
  "time morning_entry =
     [50, 48, 50, 52, 45, 48, 49, 45, 48, 49, 32, 48, 57, 58, 49, 53, 58, 48, 48]"
  by (simp add: morning_entry_def ascii_def)

lemma double_space_spec_hour: "spec_hour (time double_space_entry) = Some 10"
  unfolding double_space_time
  by (simp add: spec_hour_def parseInt_def Let_def is_ws_def is_digit_def digits_value_def
      hour_in_range_def)

lemma double_space_piece_hour: "piece_hour (time double_space_entry) = None"
  unfolding double_space_time
  by (simp add: piece_hour_def parseInt_def Let_def hour_in_range_def)

lemma morning_piece_hour: "piece_hour (time morning_entry) = Some 9"
  unfolding morning_time
  by (simp add: piece_hour_def parseInt_def Let_def is_ws_def is_digit_def digits_value_def
      hour_in_range_def)

text \<open>
  The claim as it was stated fails: for the timestamp \<open>"2024-01-01  10:00:00"\<close>, with
  two spaces, what follows the first space is \<open>" 10:00:00"\<close>, which parses to 10 before
  its first \<open>:\<close>, but the piece between the first and the second space is empty and the
  record is counted at no hour.
\<close>

theorem getHourlyStats_counterexample:
  "spec_hour (time double_space_entry) = Some 10
   \<and> snd (getHourlyStats [double_space_entry] ! 10) = 0
   \<and> sum_list (map snd (getHourlyStats [double_space_entry])) = 0"
proof -
  have "snd (getHourlyStats [double_space_entry] ! 10) = 0"
    unfolding getHourlyStats_eq by (simp add: double_space_piece_hour)
  moreover have "sum_list (map snd (getHourlyStats [double_space_entry])) = 0"
    unfolding getHourlyStats_eq using hourly_total [of "[double_space_entry]"]
    by (simp add: comp_def double_space_piece_hour)
  ultimately show ?thesis
    using double_space_spec_hour by simp
qed

theorem getHourlyStats_histogram_witness:
  "spec_hour (time morning_entry) = Some 9
   \<and> getHourlyStats [morning_entry] ! 9 = (ascii ''9:00'', 1)
   \<and> sum_list (map snd (getHourlyStats [morning_entry, double_space_entry])) = 1"
proof -
  note t = getHourlyStats_histogram [of _ "time morning_entry" 9]
  from t [of "[morning_entry]"] morning_piece_hour
  have "spec_hour (time morning_entry) = Some 9" by blast
  moreover from t [of "[morning_entry]"]
  have "getHourlyStats [morning_entry] ! 9
      = (numeral_string 9 @ ascii '':00'',
         length (filter (\<lambda>e. piece_hour (time e) = Some 9) [morning_entry]))"
    by simp
  then have "getHourlyStats [morning_entry] ! 9 = (ascii ''9:00'', 1)"
    by (simp add: morning_piece_hour numeral_string.simps [of 9] ascii_def)
  moreover from t [of "[morning_entry, double_space_entry]"]
  have "sum_list (map snd (getHourlyStats [morning_entry, double_space_entry]))
      = length (filter (\<lambda>e. piece_hour (time e) \<noteq> None) [morning_entry, double_space_entry])"
    by blast
  then have "sum_list (map snd (getHourlyStats [morning_entry, double_space_entry])) = 1"
    by (simp add: morning_piece_hour double_space_piece_hour)
  ultimately show ?thesis by simp
qed

section \<open>Counting labels that are not inherited names\<close>

lemma first_seen_snoc:
  "first_seen (xs @ [x]) = (if x \<in> set xs then first_seen xs else first_seen xs @ [x])"
  by (simp add: first_seen_def)

lemma set_first_seen: "set (first_seen xs) = set xs"
  by (simp add: first_seen_def)

lemma distinct_first_seen: "distinct (first_seen xs)"
  by (simp add: first_seen_def)

lemma get_tabulate:
  "get (map (\<lambda>k. (k, f k)) ks) k =
     (if k \<in> set ks then Own (f k) else if inherited k then Inherited else Undefined)"
proof -
  have "map_of (map (\<lambda>k. (k, f k)) ks) k = (if k \<in> set ks then Some (f k) else None)"
    by (induction ks) auto
  then show ?thesis
    by (simp add: get_def)
qed

lemma update_tabulate:
  "distinct ks \<Longrightarrow> k \<in> set ks \<Longrightarrow>
   AList.update k v (map (\<lambda>k. (k, f k)) ks) = map (\<lambda>k'. (k', if k' = k then v else f k')) ks"
  by (induction ks) auto

lemma increment_tabulate:
  assumes "\<not> inherited l"
  shows "increment l (map (\<lambda>k. (k, Num (count_list ls k))) (first_seen ls))
       = map (\<lambda>k. (k, Num (count_list (ls @ [l]) k))) (first_seen (ls @ [l]))"
proof (cases "l \<in> set ls")
  case True
  then have "l \<in> set (first_seen ls)"
    by (simp add: set_first_seen)
  then show ?thesis
    using True
    by (simp add: increment_def get_tabulate first_seen_snoc update_tabulate distinct_first_seen
        cong: map_cong)
next
  case False
  then have fresh: "l \<notin> set (first_seen ls)"
    by (simp add: set_first_seen)
  have "map (\<lambda>k. (k, Num (count_list (ls @ [l]) k))) (first_seen ls)
      = map (\<lambda>k. (k, Num (count_list ls k))) (first_seen ls)"
  proof (rule map_cong [OF refl])
    fix k assume "k \<in> set (first_seen ls)"
    with fresh have "l \<noteq> k" by blast
    then show "(k, Num (count_list (ls @ [l]) k)) = (k, Num (count_list ls k))"
      by simp
  qed
  moreover from False have "count_list ls l = 0"
    by (simp add: count_list_0_iff)
  ultimately show ?thesis
    using False fresh assms
    by (simp add: increment_def get_tabulate first_seen_snoc)
qed

lemma fold_increment:
  "\<forall>l \<in> set ls. \<not> inherited l \<Longrightarrow>
   fold increment ls [] = map (\<lambda>k. (k, Num (count_list ls k))) (first_seen ls)"
proof (induction ls rule: rev_induct)
  case Nil
  then show ?case by (simp add: first_seen_def)
next
  case (snoc l ls)
  then show ?case
    by (simp add: increment_tabulate)
qed

lemma fold_by_label:
  "(\<And>e counts. step e counts = (case label e of None \<Rightarrow> counts | Some l \<Rightarrow> increment l counts)) \<Longrightarrow>
   fold step data counts = fold increment (List.map_filter label data) counts"
  by (induction data arbitrary: counts) (simp_all add: List.map_filter_simps split: option.split)


section \<open>Companies\<close>

lemma company_step_eq:
  "company_step e counts = (case bucket e of None \<Rightarrow> counts | Some l \<Rightarrow> increment l counts)"
  by (simp add: company_step_def bucket_def trim_Nil Let_def)

lemma set_Object_entries: "set (Object_entries obj) = set obj"
  by (auto simp add: Object_entries_def)

lemma sort_desc_val_numbers:
  "list_all (\<lambda>(k, v). is_num v) xs \<Longrightarrow> sort_desc_val xs = Inr (sort_desc (\<lambda>(k, v). num_of v) xs)"
  by (simp add: sort_desc_val_def)

lemma company_table_numbers: "list_all (\<lambda>(k, v). is_num v) (company_table data)"
  by (auto simp add: company_table_def list_all_iff set_Object_entries is_num_def)

lemma getTopCompanies_eq:
  assumes "list_all (\<lambda>l. \<not> inherited l) (buckets data)"
  shows "getTopCompanies data = Inr (take 10 (sort_desc (\<lambda>(k, v). num_of v) (company_table data)))"
proof -
  from assms have "\<forall>l \<in> set (buckets data). \<not> inherited l"
    by (simp add: list_all_iff)
  then have "fold increment (buckets data) []
      = map (\<lambda>l. (l, Num (count_list (buckets data) l))) (first_seen (buckets data))"
    by (rule fold_increment)
  moreover have "fold company_step data [] = fold increment (buckets data) []"
    unfolding buckets_def by (rule fold_by_label) (rule company_step_eq)
  ultimately have "Object_entries (fold company_step data []) = company_table data"
    by (simp add: company_table_def)
  then show ?thesis
    by (simp add: getTopCompanies_def sort_desc_val_numbers [OF company_table_numbers])
qed

lemma includes_str_append: "includes_str xs m \<Longrightarrow> includes_str (xs @ ys) m"
  unfolding includes_str_sublist sublist_def by (metis append.assoc)

lemma join_first: "join (p # q # ps) = p @ 32 # join (q # ps)"
  by simp

lemma company_internal:
  assumes "includes_str (toLowerCase (company e)) (ascii ''smm'')"
  shows "isInternalUser e"
proof -
  have "toLowerCase (join [company e, userName e, nickname e, email e])
      = toLowerCase (company e) @ toLowerCase (32 # join [userName e, nickname e, email e])"
    by (simp add: toLowerCase_def)
  with assms have "includes_str (toLowerCase (join [company e, userName e, nickname e, email e])) (ascii ''smm'')"
    by (simp only: includes_str_append)
  then show ?thesis
    by (simp add: isInternalUser_def Let_def)
qed

lemma smm_company_bucket:
  "includes_str (toLowerCase (company e)) (ascii ''smm'') \<Longrightarrow> bucket e = Some INTERNAL_LABEL"
  by (simp add: bucket_def company_internal)

text \<open>
  C8, as amended. Provided no bucket is one of the names inherited from
  \<open>Object.prototype\<close>, \<open>getTopCompanies\<close> counts every internal record under the one
  aggregate label and every other record under its trimmed company, leaving out an empty
  company, and returns the buckets sorted by descending count, the first ten. Buckets
  with one and the same count stand in the order in which the counter object lists its
  names: names that are array indices first, by ascending number, then the other names
  in first-seen order.
\<close>

theorem getTopCompanies_ranking:
  assumes "list_all (\<lambda>l. \<not> inherited l) (buckets data)"
  shows "getTopCompanies data = Inr (take 10 (sort_desc (\<lambda>(k, v). num_of v) (company_table data)))
    \<and> sorted_wrt (\<lambda>a b. num_of (snd b) \<le> num_of (snd a))
         (sort_desc (\<lambda>(k, v). num_of v) (company_table data))
    \<and> filter (\<lambda>(k, v). num_of v = c) (sort_desc (\<lambda>(k, v). num_of v) (company_table data))
        = filter (\<lambda>(k, v). num_of v = c) (company_table data)
    \<and> (includes_str (toLowerCase (company e)) (ascii ''smm'') \<longrightarrow> bucket e = Some INTERNAL_LABEL)"
proof (intro conjI impI)
  show "getTopCompanies data = Inr (take 10 (sort_desc (\<lambda>(k, v). num_of v) (company_table data)))"
    using assms by (rule getTopCompanies_eq)
  show "sorted_wrt (\<lambda>a b. num_of (snd b) \<le> num_of (snd a))
         (sort_desc (\<lambda>(k, v). num_of v) (company_table data))"
    using sort_desc_descending [of "\<lambda>(k, v). num_of v" "company_table data"]
    by (simp add: case_prod_unfold)
  show "filter (\<lambda>(k, v). num_of v = c) (sort_desc (\<lambda>(k, v). num_of v) (company_table data))
        = filter (\<lambda>(k, v). num_of v = c) (company_table data)"
    using sort_desc_stable [of "\<lambda>(k, v). num_of v" c "company_table data"]
    by (simp add: case_prod_unfold)
  show "bucket e = Some INTERNAL_LABEL" if "includes_str (toLowerCase (company e)) (ascii ''smm'')"
    using that by (rule smm_company_bucket)
qed

lemma example_buckets:
  "bucket abc_entry = Some [97, 98, 99]"
  "bucket seven_entry = Some [55]"
  "bucket smm_entry = Some INTERNAL_LABEL"
  by (simp_all add: bucket_def isInternalUser_def abc_entry_def seven_entry_def smm_entry_def
      blank_entry_def ascii_def toLowerCase_def trim_def is_ws_def Let_def)

lemma example_not_inherited:
  "\<not> inherited [97, 98, 99]" "\<not> inherited [55]" "\<not> inherited INTERNAL_LABEL"
  by (simp_all add: inherited_def Object_prototype_def ascii_def INTERNAL_LABEL_def)

lemma example_array_index:
  "\<not> is_array_index [97, 98, 99]" "is_array_index [55]" "\<not> is_array_index INTERNAL_LABEL"
  by (simp_all add: is_array_index_def is_digit_def digits_value_def INTERNAL_LABEL_def)

lemma example_labels_differ:
  "INTERNAL_LABEL \<noteq> [97, 98, 99]" "INTERNAL_LABEL \<noteq> [55]"
  "[97, 98, 99] \<noteq> INTERNAL_LABEL" "[55] \<noteq> INTERNAL_LABEL"
  by (simp_all add: INTERNAL_LABEL_def)

lemma tie_company_table:
  "company_table [abc_entry, seven_entry] = [([55], Num 1), ([97, 98, 99], Num 1)]"
  by (simp add: company_table_def buckets_def List.map_filter_simps example_buckets first_seen_def
      Object_entries_def example_array_index)

text \<open>
  The claim as it was stated fails: of two companies with one record each, \<open>"abc"\<close> seen
  first and \<open>"7"\<close> second, \<open>"7"\<close> is returned first.
\<close>

theorem getTopCompanies_counterexample:
  "getTopCompanies [abc_entry, seven_entry] = Inr [([55], Num 1), ([97, 98, 99], Num 1)]
   \<and> spec_topCompanies [abc_entry, seven_entry] = [([97, 98, 99], Num 1), ([55], Num 1)]"
proof -
  have "list_all (\<lambda>l. \<not> inherited l) (buckets [abc_entry, seven_entry])"
    by (simp add: buckets_def List.map_filter_simps example_buckets example_not_inherited)
  then have "getTopCompanies [abc_entry, seven_entry]
      = Inr (take 10 (sort_desc (\<lambda>(k, v). num_of v) (company_table [abc_entry, seven_entry])))"
    by (rule getTopCompanies_eq)
  moreover have "spec_topCompanies [abc_entry, seven_entry] = [([97, 98, 99], Num 1), ([55], Num 1)]"
    by (simp add: spec_topCompanies_def buckets_def List.map_filter_simps example_buckets
        first_seen_def sort_desc_def num_of_def)
  ultimately show ?thesis
    by (simp add: tie_company_table sort_desc_def num_of_def)
qed

theorem getTopCompanies_ranking_witness:
  "getTopCompanies [abc_entry, smm_entry, seven_entry, smm_entry]
     = Inr [(INTERNAL_LABEL, Num 2), ([55], Num 1), ([97, 98, 99], Num 1)]
   \<and> bucket smm_entry = Some INTERNAL_LABEL"
proof -
  have safe: "list_all (\<lambda>l. \<not> inherited l) (buckets [abc_entry, smm_entry, seven_entry, smm_entry])"
    by (simp add: buckets_def List.map_filter_simps example_buckets example_not_inherited)
  have smm: "includes_str (toLowerCase (company smm_entry)) (ascii ''smm'')"
    by (simp add: smm_entry_def toLowerCase_def ascii_def)
  note t = getTopCompanies_ranking [OF safe, of _ smm_entry]
  from t have "getTopCompanies [abc_entry, smm_entry, seven_entry, smm_entry]
      = Inr (take 10 (sort_desc (\<lambda>(k, v). num_of v)
          (company_table [abc_entry, smm_entry, seven_entry, smm_entry])))"
    by (rule conjunct1)
  moreover have "company_table [abc_entry, smm_entry, seven_entry, smm_entry]
      = [([55], Num 1), ([97, 98, 99], Num 1), (INTERNAL_LABEL, Num 2)]"
    by (simp add: company_table_def buckets_def List.map_filter_simps example_buckets first_seen_def
        Object_entries_def example_array_index example_labels_differ)
  moreover from t smm have "bucket smm_entry = Some INTERNAL_LABEL"
    by blast
  ultimately show ?thesis
    by (simp add: sort_desc_def num_of_def)
qed

section \<open>Labels and dates that are inherited names\<close>

lemma inherited_proto: "inherited (ascii ''__proto__'')"
  by (simp add: inherited_def Object_prototype_def ascii_def)

lemma inherited_constructor: "inherited (ascii ''constructor'')"
  by (simp add: inherited_def Object_prototype_def ascii_def)

lemma get_empty_inherited: "inherited k \<Longrightarrow> get [] k = Inherited"
  by (simp add: get_def)

lemma constructor_date: "hd (split 32 (time constructor_date_entry)) = ascii ''constructor''"
  by (simp add: constructor_date_entry_def hd_split ascii_def)

lemma ascii_constructor_not_Nil: "ascii ''constructor'' \<noteq> []"
  by (simp add: ascii_def)

text \<open>
  C2 claims that the values of \<open>getSourceDistribution\<close> add up to the number of records,
  each record counted under one label. For the one record with source \<open>"__proto__"\<close> the
  code returns no entry at all: \<open>counts["__proto__"]\<close> reads the prototype object,
  \<open>+ 1\<close> makes a string of it, and the assignment is ignored.
\<close>

theorem getSourceDistribution_inherited_name:
  "getSourceDistribution [proto_source_entry] = []"
proof -
  have "source proto_source_entry = ascii ''__proto__''"
    by (simp add: proto_source_entry_def)
  moreover have "ascii ''__proto__'' \<noteq> []"
    by (simp add: ascii_def)
  moreover have "increment (ascii ''__proto__'') [] = []"
    by (simp add: increment_def get_empty_inherited [OF inherited_proto])
  ultimately show ?thesis
    by (simp add: getSourceDistribution_def Object_keys_def Object_entries_def)
qed

text \<open>
  For the source \<open>"constructor"\<close> the entry is there, but its value is a string.
\<close>

lemma getSourceDistribution_constructor:
  "getSourceDistribution [constructor_source_entry] = [(ascii ''constructor'', Str)]"
proof -
  have "source constructor_source_entry = ascii ''constructor''"
    by (simp add: constructor_source_entry_def)
  moreover have "ascii ''constructor'' \<noteq> ascii ''__proto__''"
    by (simp add: ascii_def)
  then have "increment (ascii ''constructor'') [] = [(ascii ''constructor'', Str)]"
    by (simp add: increment_def get_empty_inherited [OF inherited_constructor])
  moreover have "\<not> is_array_index (ascii ''constructor'')"
    by (simp add: is_array_index_def ascii_def is_digit_def)
  ultimately show ?thesis
    by (simp add: getSourceDistribution_def Object_keys_def Object_entries_def ascii_constructor_not_Nil)
qed

text \<open>
  The same defect in \<open>getDailyTrend\<close>. For the one record whose date portion is
  \<open>"constructor"\<close> the code throws: \<open>stats["constructor"]\<close> reads the inherited function,
  no bucket is created, and \<open>.users.add\<close> is called on \<open>undefined\<close>.
\<close>

lemma getDailyTrend_inherited_name:
  "getDailyTrend [constructor_date_entry] = Inl TypeError"
proof -
  have "userId constructor_date_entry \<noteq> []"
    by (simp add: constructor_date_entry_def ascii_def)
  then have "daily_step constructor_date_entry [] = Inl TypeError"
    by (simp add: daily_step_def constructor_date ascii_constructor_not_Nil
        get_empty_inherited [OF inherited_constructor])
  then show ?thesis
    by (simp add: getDailyTrend_def)
qed

text \<open>
  C6 claims a retention rate of 0 for a collection of one date. For the one record whose
  date portion is \<open>"constructor"\<close> the code throws: \<open>userDays["constructor"].add\<close> is not
  a function.
\<close>

theorem calculateRetention_inherited_name:
  "calculateRetention [constructor_date_entry] = Inl TypeError"
proof -
  have "retention_step constructor_date_entry [] = Inl TypeError"
    by (simp add: retention_step_def constructor_date get_empty_inherited [OF inherited_constructor])
  then show ?thesis
    by (simp add: calculateRetention_def)
qed

text \<open>
  C10 claims that \<open>getSummaryStats\<close> returns its totals for every collection. For the
  one record whose date portion is \<open>"constructor"\<close> it returns nothing: the error of
  \<open>getDailyTrend\<close> passes through.
\<close>

theorem getSummaryStats_inherited_name:
  "getSummaryStats [constructor_date_entry] = Inl TypeError"
proof -
  have "userId constructor_date_entry \<noteq> []"
    by (simp add: constructor_date_entry_def ascii_def)
  then have "daily_step constructor_date_entry [] = Inl TypeError"
    by (simp add: daily_step_def constructor_date ascii_constructor_not_Nil
        get_empty_inherited [OF inherited_constructor])
  then have "getDailyTrend [constructor_date_entry] = Inl TypeError"
    by (simp add: getDailyTrend_def)
  then show ?thesis
    by (simp add: getSummaryStats_def Let_def)
qed

section \<open>Listing an object\<close>

lemma distinct_map_insort_key:
  "distinct (map f (insort_key g x xs)) \<longleftrightarrow> f x \<notin> f ` set xs \<and> distinct (map f xs)"
  by (induction xs) (auto simp add: set_insort_key)

lemma distinct_map_sort_key: "distinct (map f (sort_key g xs)) \<longleftrightarrow> distinct (map f xs)"
  by (induction xs) (simp_all add: distinct_map_insort_key)

lemma sum_list_map_insort_key:
  "sum_list (map f (insort_key g x xs)) = f x + sum_list (map f xs)" for f :: "'a \<Rightarrow> nat"
  by (induction xs) simp_all

lemma sum_list_map_sort_key:
  "sum_list (map f (sort_key g xs)) = sum_list (map f xs)" for f :: "'a \<Rightarrow> nat"
  by (induction xs) (simp_all add: sum_list_map_insort_key)

lemma sum_list_map_partition:
  "sum_list (map f (filter P xs)) + sum_list (map f (filter (\<lambda>x. \<not> P x) xs)) = sum_list (map f xs)"
  for f :: "'a \<Rightarrow> nat"
  by (induction xs) simp_all

lemma sum_list_Object_entries:
  "sum_list (map f (Object_entries obj)) = sum_list (map f obj)" for f :: "jstring \<times> 'v \<Rightarrow> nat"
  using sum_list_map_partition [of f "\<lambda>(k, v). is_array_index k" obj]
  by (simp add: Object_entries_def sum_list_map_sort_key case_prod_unfold)

lemma distinct_Object_entries:
  assumes "distinct (map fst obj)"
  shows "distinct (map fst (Object_entries obj))"
proof -
  have "distinct (map fst (filter P obj))" for P
    using assms by (rule distinct_map_filter)
  moreover have "fst ` set (filter (\<lambda>(k, v). is_array_index k) obj)
      \<inter> fst ` set (filter (\<lambda>(k, v). \<not> is_array_index k) obj) = {}"
    by auto
  ultimately show ?thesis
    by (simp add: Object_entries_def distinct_map_sort_key)
qed

lemma entries_by_keys:
  assumes "distinct (map fst obj)"
  shows "map (\<lambda>name. (name, case map_of obj name of Some v \<Rightarrow> v | None \<Rightarrow> d)) (Object_keys obj)
       = Object_entries obj"
proof -
  have "(case map_of obj (fst p) of Some v \<Rightarrow> v | None \<Rightarrow> d) = snd p" if "p \<in> set (Object_entries obj)" for p
  proof -
    from that have "(fst p, snd p) \<in> set obj"
      by (simp add: set_Object_entries)
    with assms have "map_of obj (fst p) = Some (snd p)"
      by (rule map_of_is_SomeI)
    then show ?thesis by simp
  qed
  then have "map (\<lambda>p. (fst p, case map_of obj (fst p) of Some v \<Rightarrow> v | None \<Rightarrow> d)) (Object_entries obj)
      = map (\<lambda>p. p) (Object_entries obj)"
    by (intro map_cong refl) simp
  then show ?thesis
    by (simp add: Object_keys_def comp_def)
qed

lemma sort_Object_keys:
  assumes "distinct (map fst obj)"
  shows "sort (Object_keys obj) = sort (map fst obj)"
proof (rule sorted_distinct_set_unique)
  show "distinct (sort (Object_keys obj))"
    using distinct_Object_entries [OF assms] by (simp add: Object_keys_def)
  show "distinct (sort (map fst obj))"
    using assms by simp
  show "set (sort (Object_keys obj)) = set (sort (map fst obj))"
    by (simp add: Object_keys_def set_Object_entries)
qed simp_all

section \<open>Sources whose labels are not inherited names\<close>

text \<open>
  Apart from the labels that are inherited names, \<open>getSourceDistribution\<close> does what C2
  says: every value is a number, each label has the number of its records, and the
  values add up to the number of records.
\<close>

lemma count_list_map:
  "count_list (map f xs) l = length (filter (\<lambda>x. f x = l) xs)"
  by (induction xs) simp_all

lemma fold_source_labels:
  "fold (\<lambda>entry. increment (if source entry \<noteq> [] then source entry else ascii ''Unknown'')) data counts
     = fold increment (map source_label data) counts"
  by (induction data arbitrary: counts) (simp_all add: source_label_def)

lemma getSourceDistribution_counts:
  assumes "list_all (\<lambda>e. \<not> inherited (source_label e)) data"
  shows "getSourceDistribution data = source_table data"
    and "list_all (\<lambda>(name, v). is_num v) (getSourceDistribution data)"
    and "sum_list (map (\<lambda>(name, v). num_of v) (getSourceDistribution data)) = length data"
proof -
  let ?ls = "map source_label data"
  let ?t = "map (\<lambda>l. (l, Num (length (filter (\<lambda>e. source_label e = l) data)))) (first_seen ?ls)"
  from assms have "\<forall>l \<in> set ?ls. \<not> inherited l"
    by (simp add: list_all_iff)
  then have "fold increment ?ls [] = ?t"
    by (simp add: fold_increment count_list_map)
  moreover have "distinct (map fst ?t)"
    by (simp add: comp_def distinct_first_seen)
  ultimately show eq: "getSourceDistribution data = source_table data"
    by (simp add: getSourceDistribution_def fold_source_labels entries_by_keys source_table_def)
  show "list_all (\<lambda>(name, v). is_num v) (getSourceDistribution data)"
    unfolding eq by (auto simp add: source_table_def list_all_iff set_Object_entries is_num_def)
  have "sum_list (map (\<lambda>(name, v). num_of v) (source_table data))
      = (\<Sum>l\<leftarrow>first_seen ?ls. length (filter (\<lambda>e. source_label e = l) data))"
    by (simp add: source_table_def sum_list_Object_entries comp_def num_of_def)
  also have "\<dots> = length (filter (\<lambda>e. source_label e \<in> set (first_seen ?ls)) data)"
    by (rule sum_counts_by_key) (rule distinct_first_seen)
  also have "\<dots> = length data"
    by (simp add: set_first_seen)
  finally show "sum_list (map (\<lambda>(name, v). num_of v) (getSourceDistribution data)) = length data"
    by (simp only: eq)
qed

section \<open>Sets of strings\<close>

lemma new_Set_snoc: "new_Set (xs @ [x]) = Set_add x (new_Set xs)"
  by (simp add: new_Set_def)

lemma set_new_Set: "set (new_Set xs) = set xs"
  by (induction xs rule: rev_induct) (auto simp add: new_Set_snoc Set_add_def, simp add: new_Set_def)

lemma distinct_new_Set: "distinct (new_Set xs)"
  by (induction xs rule: rev_induct) (auto simp add: new_Set_snoc Set_add_def, simp add: new_Set_def)

lemma length_new_Set: "length (new_Set xs) = card (set xs)"
  using distinct_card [OF distinct_new_Set, of xs] by (simp add: set_new_Set)

section \<open>Loops that may throw\<close>

lemma forEach_snoc:
  "forEach body (xs @ [x]) s =
     (case forEach body xs s of Inl e \<Rightarrow> Inl e | Inr s' \<Rightarrow> body x s')"
  by (induction xs arbitrary: s) (simp_all split: sum.split)

section \<open>Days whose dates are not inherited names\<close>

text \<open>
  Apart from the dates that are inherited names, \<open>getDailyTrend\<close> does what C5 says: it
  returns, and its result is the daily trend of the specification.
\<close>

lemma date_of_split: "hd (split 32 (time e)) = date_of e"
  by (simp add: hd_split date_of_def)

lemma map_entry_fresh_snoc:
  "k \<notin> fst ` set al \<Longrightarrow> AList.map_entry k g (al @ [(k, v)]) = al @ [(k, g v)]"
  by (induction al) auto

lemma day_entry_other:
  "date_of e \<noteq> d \<Longrightarrow> day_entry (data @ [e]) d = day_entry data d"
  by (simp add: day_entry_def)

lemma day_entry_same:
  "day_entry (data @ [e]) (date_of e) =
     (case day_entry data (date_of e) of
        (q, users) \<Rightarrow> (q + 1, if userId e \<noteq> [] then Set_add (userId e) users else users))"
  by (simp add: day_entry_def new_Set_snoc)


lemma stats_of_keys: "map fst (stats_of data) = first_seen (filter (\<lambda>d. d \<noteq> []) (map date_of data))"
  by (simp add: stats_of_def comp_def)

lemma daily_step_tabulate:
  assumes "\<not> inherited (date_of e)"
  shows "daily_step e (stats_of data) = Inr (stats_of (data @ [e]))"
proof (cases "date_of e = []")
  case True
  then have "stats_of (data @ [e]) = stats_of data"
    unfolding stats_of_def by (intro map_cong) (auto simp add: day_entry_other set_first_seen)
  with True show ?thesis
    by (simp add: daily_step_def date_of_split)
next
  case False
  let ?ds = "filter (\<lambda>d. d \<noteq> []) (map date_of data)"
  let ?g = "\<lambda>(q, users). (q + 1, if userId e \<noteq> [] then Set_add (userId e) users else users)"
  have ds: "filter (\<lambda>d. d \<noteq> []) (map date_of (data @ [e])) = ?ds @ [date_of e]"
    using False by simp
  have other: "map (\<lambda>d. (d, day_entry (data @ [e]) d)) (first_seen ?ds)
      = map (\<lambda>d. (d, if d = date_of e then ?g (day_entry data d) else day_entry data d)) (first_seen ?ds)"
    by (intro map_cong refl) (auto simp add: day_entry_other day_entry_same)
  show ?thesis
  proof (cases "date_of e \<in> set ?ds")
    case True
    then have "get (stats_of data) (date_of e) = Own (day_entry data (date_of e))"
      unfolding stats_of_def by (simp add: get_tabulate set_first_seen)
    moreover have "count_entry (date_of e) e (stats_of data) = stats_of (data @ [e])"
      unfolding stats_of_def ds count_entry_def
      using True by (simp add: first_seen_snoc map_entry_tabulate distinct_first_seen other)
    ultimately show ?thesis
      using False by (simp add: daily_step_def date_of_split)
  next
    case fresh: False
    then have "get (stats_of data) (date_of e) = Undefined"
      unfolding stats_of_def using assms by (simp add: get_tabulate set_first_seen)
    moreover have "date_of e \<notin> fst ` set (stats_of data)"
      using fresh by (simp add: stats_of_def image_image set_first_seen)
    then have "count_entry (date_of e) e (stats_of data @ [(date_of e, (0, []))])
        = stats_of data @ [(date_of e, ?g (0, []))]"
      unfolding count_entry_def by (rule map_entry_fresh_snoc)
    moreover have "filter (\<lambda>x. date_of x = date_of e) data = []"
      using fresh False by (fastforce simp add: filter_empty_conv image_iff)
    then have "day_entry data (date_of e) = (0, [])"
      by (simp add: day_entry_def new_Set_def)
    then have "day_entry (data @ [e]) (date_of e) = ?g (0, [])"
      by (simp add: day_entry_same)
    moreover have "map (\<lambda>d. (d, day_entry (data @ [e]) d)) (first_seen ?ds) = stats_of data"
      unfolding stats_of_def
    proof (rule map_cong [OF refl])
      fix d assume "d \<in> set (first_seen ?ds)"
      then have "d \<in> set ?ds" by (simp only: set_first_seen)
      with fresh have "date_of e \<noteq> d" by blast
      then show "(d, day_entry (data @ [e]) d) = (d, day_entry data d)"
        by (simp add: day_entry_other)
    qed
    ultimately show ?thesis
      using False fresh by (simp add: daily_step_def date_of_split stats_of_def ds first_seen_snoc)
  qed
qed

lemma forEach_daily_step:
  "list_all (\<lambda>e. \<not> inherited (date_of e)) data \<Longrightarrow> forEach daily_step data [] = Inr (stats_of data)"
proof (induction data rule: rev_induct)
  case Nil
  then show ?case by (simp add: stats_of_def first_seen_def)
next
  case (snoc e data)
  then show ?case
    by (simp add: forEach_snoc daily_step_tabulate)
qed

lemma sort_first_seen: "sort (first_seen xs) = sort (remdups xs)"
  by (rule sorted_distinct_set_unique) (simp_all add: distinct_first_seen set_first_seen)

lemma map_of_tabulate:
  "map_of (map (\<lambda>k. (k, f k)) ks) k = (if k \<in> set ks then Some (f k) else None)"
  by (induction ks) auto

lemma map_of_stats_of:
  "d \<in> set (dates_present data) \<Longrightarrow> map_of (stats_of data) d = Some (day_entry data d)"
  by (simp add: stats_of_def map_of_tabulate dates_present_def set_first_seen)

lemma getDailyTrend_groups:
  assumes "list_all (\<lambda>e. \<not> inherited (date_of e)) data"
  shows "getDailyTrend data = Inr (spec_dailyTrend data)"
proof -
  have "distinct (map fst (stats_of data))"
    by (simp add: stats_of_keys distinct_first_seen)
  then have "sort (Object_keys (stats_of data)) = dates_present data"
    by (simp add: sort_Object_keys stats_of_keys sort_first_seen dates_present_def)
  moreover have "map (\<lambda>d. case map_of (stats_of data) d of
          Some (q, users) \<Rightarrow> \<lparr>date = d, queries = q, dau = length users\<rparr>
        | None \<Rightarrow> \<lparr>date = d, queries = 0, dau = 0\<rparr>) (dates_present data)
      = spec_dailyTrend data"
    unfolding spec_dailyTrend_def
    by (intro map_cong refl) (simp add: map_of_stats_of day_entry_def length_new_Set)
  ultimately show ?thesis
    by (simp add: getDailyTrend_def forEach_daily_step [OF assms])
qed


lemma spec_dailyTrend_dates:
  "map date (spec_dailyTrend data) = dates_present data"
  "sorted (dates_present data)" "distinct (dates_present data)"
  "set (dates_present data) = {d \<in> date_of ` set data. d \<noteq> []}"
  by (auto simp add: spec_dailyTrend_def dates_present_def comp_def)

section \<open>Retention over dates that are not inherited names\<close>

text \<open>
  Apart from the dates that are inherited names, \<open>calculateRetention\<close> does what C6
  says: it returns the retention rate of the specification, which is 0 for fewer than two
  distinct dates and 50 for the user sets \<open>{a, b}\<close> and \<open>{b, c}\<close> of two dates.
\<close>

lemma day_users_snoc:
  "day_users (data @ [e]) d = (if date_of e = d then Set_add (userId e) (day_users data d) else day_users data d)"
  by (simp add: day_users_def new_Set_snoc)

lemma set_day_users: "set (day_users data d) = users_on data d"
  by (simp add: day_users_def users_on_def set_new_Set)

lemma distinct_day_users: "distinct (day_users data d)"
  by (simp add: day_users_def distinct_new_Set)

lemma retention_step_tabulate:
  assumes "\<not> inherited (date_of e)"
  shows "retention_step e (userDays_of data) = Inr (userDays_of (data @ [e]))"
proof -
  let ?ds = "map date_of data"
  have other: "map (\<lambda>d. (d, day_users (data @ [e]) d)) (first_seen ?ds)
      = map (\<lambda>d. (d, if d = date_of e then Set_add (userId e) (day_users data d) else day_users data d))
          (first_seen ?ds)"
    by (intro map_cong refl) (auto simp add: day_users_snoc)
  show ?thesis
  proof (cases "date_of e \<in> set ?ds")
    case True
    then have "get (userDays_of data) (date_of e) = Own (day_users data (date_of e))"
      unfolding userDays_of_def by (simp add: get_tabulate set_first_seen)
    moreover have "AList.map_entry (date_of e) (Set_add (userId e)) (userDays_of data)
        = userDays_of (data @ [e])"
      unfolding userDays_of_def
      using True by (simp add: first_seen_snoc map_entry_tabulate distinct_first_seen other)
    ultimately show ?thesis
      by (simp add: retention_step_def date_of_split)
  next
    case fresh: False
    then have "get (userDays_of data) (date_of e) = Undefined"
      unfolding userDays_of_def using assms by (simp add: get_tabulate set_first_seen)
    moreover have "date_of e \<notin> fst ` set (userDays_of data)"
      using fresh by (simp add: userDays_of_def image_image set_first_seen)
    then have "AList.map_entry (date_of e) (Set_add (userId e)) (userDays_of data @ [(date_of e, [])])
        = userDays_of data @ [(date_of e, Set_add (userId e) [])]"
      by (rule map_entry_fresh_snoc)
    moreover have "filter (\<lambda>x. date_of x = date_of e) data = []"
      using fresh by (fastforce simp add: filter_empty_conv image_iff)
    then have "day_users data (date_of e) = []"
      by (simp add: day_users_def new_Set_def)
    then have "day_users (data @ [e]) (date_of e) = Set_add (userId e) []"
      by (simp add: day_users_snoc)
    moreover have "map (\<lambda>d. (d, day_users (data @ [e]) d)) (first_seen ?ds) = userDays_of data"
      unfolding userDays_of_def
    proof (rule map_cong [OF refl])
      fix d assume "d \<in> set (first_seen ?ds)"
      then have "d \<in> set ?ds" by (simp only: set_first_seen)
      with fresh have "date_of e \<noteq> d" by blast
      then show "(d, day_users (data @ [e]) d) = (d, day_users data d)"
        by (simp add: day_users_snoc)
    qed
    ultimately show ?thesis
      using fresh by (simp add: retention_step_def date_of_split userDays_of_def first_seen_snoc)
  qed
qed

lemma forEach_retention_step:
  "list_all (\<lambda>e. \<not> inherited (date_of e)) data \<Longrightarrow>
   forEach retention_step data [] = Inr (userDays_of data)"
proof (induction data rule: rev_induct)
  case Nil
  then show ?case by (simp add: userDays_of_def first_seen_def)
next
  case (snoc e data)
  then show ?case
    by (simp add: forEach_snoc retention_step_tabulate)
qed

lemma users_of_userDays:
  "d \<in> date_of ` set data \<Longrightarrow> users_of (userDays_of data) d = day_users data d"
  by (simp add: users_of_def userDays_of_def map_of_tabulate set_first_seen)

lemma retained_card:
  "length (filter (\<lambda>uid. uid \<in> set (day_users data d')) (day_users data d))
     = card (users_on data d \<inter> users_on data d')"
proof -
  have "distinct (filter (\<lambda>uid. uid \<in> set (day_users data d')) (day_users data d))"
    by (simp add: distinct_day_users)
  then have "card (set (filter (\<lambda>uid. uid \<in> set (day_users data d')) (day_users data d)))
      = length (filter (\<lambda>uid. uid \<in> set (day_users data d')) (day_users data d))"
    by (rule distinct_card)
  moreover have "set (filter (\<lambda>uid. uid \<in> set (day_users data d')) (day_users data d))
      = users_on data d \<inter> users_on data d'"
    by (auto simp add: set_day_users)
  ultimately show ?thesis by simp
qed

lemma length_day_users: "length (day_users data d) = card (users_on data d)"
  using distinct_card [OF distinct_day_users, of data d] by (simp add: set_day_users)


lemma retention_loop_eq:
  assumes "set ds \<subseteq> date_of ` set data"
  shows "retention_loop ds (userDays_of data) (s, c) =
     (s + sum_list (map (\<lambda>(d, d'). real (card (users_on data d \<inter> users_on data d'))
                                    / real (card (users_on data d)))
            (filter (\<lambda>(d, d'). users_on data d \<noteq> {}) (consecutive ds))),
      c + length (filter (\<lambda>(d, d'). users_on data d \<noteq> {}) (consecutive ds)))"
  using assms
proof (induction ds arbitrary: s c rule: consecutive.induct)
  case (1 d d' ds)
  from "1.prems" have keys: "d \<in> date_of ` set data" "d' \<in> date_of ` set data"
    and rest: "set (d' # ds) \<subseteq> date_of ` set data"
    by simp_all
  have empty: "day_users data d = [] \<longleftrightarrow> users_on data d = {}"
    using set_day_users [of data d] by (cases "day_users data d") auto
  show ?case
  proof (cases "users_on data d = {}")
    case True
    with empty have "day_users data d = []" by simp
    then show ?thesis
      using True "1.IH" [OF rest, of s c]
      by (simp add: Let_def users_of_userDays [OF keys(1)] users_of_userDays [OF keys(2)])
  next
    case False
    with empty have "day_users data d \<noteq> []" by simp
    then show ?thesis
      using False
        "1.IH" [OF rest, of "s + real (card (users_on data d \<inter> users_on data d'))
                                  / real (card (users_on data d))" "c + 1"]
      by (simp add: Let_def users_of_userDays [OF keys(1)] users_of_userDays [OF keys(2)]
          retained_card length_day_users add.assoc)
  qed
qed simp_all

lemma calculateRetention_mean:
  assumes "list_all (\<lambda>e. \<not> inherited (date_of e)) data"
  shows "calculateRetention data = Inr (spec_retention data)"
proof -
  let ?dates = "sort (remdups (map date_of data))"
  let ?pairs = "filter (\<lambda>(d, d'). users_on data d \<noteq> {}) (consecutive ?dates)"
  have "distinct (map fst (userDays_of data))"
    by (simp add: userDays_of_def comp_def distinct_first_seen)
  then have dates: "sort (Object_keys (userDays_of data)) = ?dates"
    by (simp add: sort_Object_keys userDays_of_def comp_def sort_first_seen)
  have "set ?dates \<subseteq> date_of ` set data"
    by simp
  from retention_loop_eq [OF this, of 0 0]
  have loop: "retention_loop ?dates (userDays_of data) (0, 0) =
     (sum_list (map (\<lambda>(d, d'). real (card (users_on data d \<inter> users_on data d'))
                                / real (card (users_on data d))) ?pairs),
      length ?pairs)"
    by simp
  show ?thesis
    unfolding calculateRetention_def forEach_retention_step [OF assms] spec_retention_def
    by (simp add: dates loop Let_def)
qed


lemma calculateRetention_one_date:
  assumes "list_all (\<lambda>e. \<not> inherited (date_of e)) data"
    and "card (date_of ` set data) < 2"
  shows "calculateRetention data = Inr 0"
proof -
  have "length (sort (remdups (map date_of data))) = card (date_of ` set data)"
    by (simp add: length_remdups_card_conv)
  with assms(2) show ?thesis
    by (simp add: calculateRetention_mean [OF assms(1)] spec_retention_def Let_def)
qed

lemma visit_date:
  "date_of (visit ''2024-01-01 09:15:00'' u) = [50, 48, 50, 52, 45, 48, 49, 45, 48, 49]"
  "date_of (visit ''2024-01-02 10:30:00'' u) = [50, 48, 50, 52, 45, 48, 49, 45, 48, 50]"
  by (simp_all add: date_of_def visit_def ascii_def)

lemma visit_userId: "userId (visit t u) = ascii u"
  by (simp add: visit_def)

lemma dates_not_inherited:
  "\<not> inherited [50, 48, 50, 52, 45, 48, 49, 45, 48, 49]"
  "\<not> inherited [50, 48, 50, 52, 45, 48, 49, 45, 48, 50]"
  by (simp_all add: inherited_def Object_prototype_def ascii_def)

lemma two_days_order:
  "sort [[50, 48, 50, 52, 45, 48, 49, 45, 48, 49], [50, 48, 50, 52, 45, 48, 49, 45, 48, 50]]
     = [[50, 48, 50, 52, 45, 48, 49, 45, 48, 49], [50, 48, 50, 52, 45, 48, 49, 45, 48, 50 :: nat]]"
  by simp

lemma calculateRetention_two_days:
  "calculateRetention
     [visit ''2024-01-01 09:15:00'' ''a'', visit ''2024-01-01 09:15:00'' ''b'',
      visit ''2024-01-02 10:30:00'' ''b'', visit ''2024-01-02 10:30:00'' ''c''] = Inr 50"
proof -
  let ?data = "[visit ''2024-01-01 09:15:00'' ''a'', visit ''2024-01-01 09:15:00'' ''b'',
      visit ''2024-01-02 10:30:00'' ''b'', visit ''2024-01-02 10:30:00'' ''c'']"
  have safe: "list_all (\<lambda>e. \<not> inherited (date_of e)) ?data"
    by (simp add: visit_date dates_not_inherited)
  have a: "users_on ?data [50, 48, 50, 52, 45, 48, 49, 45, 48, 49] = {[97], [98]}"
    by (simp add: users_on_def visit_date visit_userId ascii_def)
  have b: "users_on ?data [50, 48, 50, 52, 45, 48, 49, 45, 48, 50] = {[98], [99]}"
    by (simp add: users_on_def visit_date visit_userId ascii_def)
  have c: "{[97], [98]} \<inter> {[98], [99 :: nat]} = {[98]}"
    by auto
  show ?thesis
    unfolding calculateRetention_mean [OF safe] spec_retention_def
    by (simp add: visit_date two_days_order a b c Let_def)
qed


section \<open>Summary over dates that are not inherited names\<close>

text \<open>
  Apart from the dates that are inherited names, \<open>getSummaryStats\<close> does what C10
  says: it returns, with the number of records, the number of distinct user ids (the
  empty one counts) and their quotient, 0 when there is no user id.
\<close>

lemma getSummaryStats_totals:
  assumes "list_all (\<lambda>e. \<not> inherited (date_of e)) data"
  shows "\<exists>s. getSummaryStats data = Inr s
    \<and> totalQueries s = length data
    \<and> uniqueUsers s = card (set (map userId data))
    \<and> avgQueriesPerUser s =
        (if card (set (map userId data)) = 0 then 0
         else real (length data) / real (card (set (map userId data))))
    \<and> retentionRate s = spec_retention data"
  unfolding getSummaryStats_def Let_def getDailyTrend_groups [OF assms] calculateRetention_mean [OF assms]
  by (simp add: length_new_Set)

section \<open>The daily trend\<close>

text \<open>
  C5, as amended. Provided no date portion is one of the names inherited from
  \<open>Object.prototype\<close>, \<open>getDailyTrend\<close> groups the records by what stands before the
  first space of the timestamp, skips the records for which that is empty, and returns
  exactly one entry per other date portion, ascending by the code units of the date,
  with the number of the records of the date and the number of distinct non-empty user
  ids among them. The date portion is not parsed: whatever is not empty is a date.
\<close>

theorem getDailyTrend_by_date:
  assumes "list_all (\<lambda>e. \<not> inherited (date_of e)) data"
  shows "getDailyTrend data = Inr (spec_dailyTrend data)
    \<and> map date (spec_dailyTrend data) = dates_present data
    \<and> sorted (dates_present data) \<and> distinct (dates_present data)
    \<and> set (dates_present data) = {d \<in> date_of ` set data. d \<noteq> []}"
  using getDailyTrend_groups [OF assms] spec_dailyTrend_dates [of data] by simp

lemma garbage_date: "date_of garbage_entry = [103, 97, 114, 98, 97, 103, 101]"
  by (simp add: garbage_entry_def visit_def date_of_def ascii_def)

lemma garbage_not_inherited: "\<not> inherited [103, 97, 114, 98, 97, 103, 101]"
  by (simp add: inherited_def Object_prototype_def ascii_def)

text \<open>
  The claim as it was stated fails: the date portion \<open>garbage\<close> does not parse as a date,
  and the record is not skipped.
\<close>

theorem getDailyTrend_counterexample:
  "\<not> is_calendar_date (date_of garbage_entry)
   \<and> getDailyTrend [garbage_entry] = Inr [\<lparr>date = ascii ''garbage'', queries = 1, dau = 1\<rparr>]"
proof -
  have "list_all (\<lambda>e. \<not> inherited (date_of e)) [garbage_entry]"
    by (simp add: garbage_date garbage_not_inherited)
  then have "getDailyTrend [garbage_entry] = Inr (spec_dailyTrend [garbage_entry])"
    by (rule getDailyTrend_groups)
  moreover have "userId garbage_entry = [117, 49]"
    by (simp add: garbage_entry_def visit_def ascii_def)
  then have "spec_dailyTrend [garbage_entry] = [\<lparr>date = ascii ''garbage'', queries = 1, dau = 1\<rparr>]"
    by (simp add: spec_dailyTrend_def dates_present_def garbage_date ascii_def)
  moreover have "\<not> is_calendar_date (date_of garbage_entry)"
    by (simp add: garbage_date is_calendar_date_def)
  ultimately show ?thesis by simp
qed

lemma visit_date_late:
  "date_of (visit ''2024-01-01 23:00:00'' u) = [50, 48, 50, 52, 45, 48, 49, 45, 48, 49]"
  "date_of (visit '' 10:00:00'' u) = []"
  by (simp_all add: date_of_def visit_def ascii_def)

lemma inherited_Nil: "\<not> inherited []"
  by (simp add: inherited_def Object_prototype_def ascii_def)

theorem getDailyTrend_by_date_witness:
  "getDailyTrend
     [visit ''2024-01-02 10:30:00'' ''b'', visit ''2024-01-01 09:15:00'' ''a'',
      visit '' 10:00:00'' ''c'', visit ''2024-01-01 23:00:00'' ''a'']
   = Inr [\<lparr>date = ascii ''2024-01-01'', queries = 2, dau = 1\<rparr>,
          \<lparr>date = ascii ''2024-01-02'', queries = 1, dau = 1\<rparr>]"
proof -
  let ?data = "[visit ''2024-01-02 10:30:00'' ''b'', visit ''2024-01-01 09:15:00'' ''a'',
      visit '' 10:00:00'' ''c'', visit ''2024-01-01 23:00:00'' ''a'']"
  have "list_all (\<lambda>e. \<not> inherited (date_of e)) ?data"
    by (simp add: visit_date visit_date_late dates_not_inherited inherited_Nil)
  from getDailyTrend_by_date [OF this]
  have "getDailyTrend ?data = Inr (spec_dailyTrend ?data)"
    by (rule conjunct1)
  moreover have "dates_present ?data
      = [[50, 48, 50, 52, 45, 48, 49, 45, 48, 49], [50, 48, 50, 52, 45, 48, 49, 45, 48, 50]]"
    by (simp add: dates_present_def visit_date visit_date_late)
  then have "spec_dailyTrend ?data
      = [\<lparr>date = ascii ''2024-01-01'', queries = 2, dau = 1\<rparr>,
         \<lparr>date = ascii ''2024-01-02'', queries = 1, dau = 1\<rparr>]"
    by (simp add: spec_dailyTrend_def visit_date visit_date_late visit_userId ascii_def)
  ultimately show ?thesis by simp
qed

end
